theory Spec2Isabelle
  imports Main
begin

section \<open>Data model of \<^verbatim>\<open>computedfields/handlers.py\<close>\<close>

text \<open>
  A model class is identified by its name, a field by its name, a primary key is an
  integer.  A model instance carries its class (\<^verbatim>\<open>type(instance)\<close>), its primary key and
  the flag \<^verbatim>\<open>instance._state.adding\<close>.
\<close>

type_synonym model = string
type_synonym field = string
type_synonym pk = int

record model_instance =
  inst_type :: model
  inst_pk :: pk
  adding :: bool

text \<open>
  Django compares and hashes model instances by their concrete class and primary key
  (\<^verbatim>\<open>Model.__eq__\<close>, \<^verbatim>\<open>Model.__hash__\<close>), not by the rest of their state.  A dictionary
  keyed by instances is therefore a dictionary keyed by this pair: two instance objects
  of the same class and key, whatever their \<^verbatim>\<open>_state.adding\<close>, find the same entry.  The
  handlers use an instance as a key only where it has a primary key (after the early
  return for new instances, or in a phase in which it has been saved).
\<close>

type_synonym instance_key = "model \<times> pk"

definition key_of :: "model_instance \<Rightarrow> instance_key" where
  "key_of inst = (inst_type inst, inst_pk inst)"

text \<open>
  A Python \<^verbatim>\<open>dict\<close> whose iteration order matters is an association list in insertion
  order; a well-formed one has pairwise distinct keys.  A dependent-update map (the value
  of \<^verbatim>\<open>_querysets_for_update(..., pk_list=True)\<close>, the arguments of \<^verbatim>\<open>merge_pk_maps\<close>) maps
  a model to the pair \<^verbatim>\<open>[pks, fields]\<close> of a set of primary keys and a set of field names.
\<close>

type_synonym ('m, 'a, 'b) mm = "('m \<times> ('a set \<times> 'b set)) list"
type_synonym pk_map = "(model, pk, field) mm"

definition keys :: "('k \<times> 'v) list \<Rightarrow> 'k list" where
  "keys d = map fst d"

text \<open>\<^verbatim>\<open>d.setdefault(k, v)\<close>: the dictionary afterwards.  An absent key is appended.\<close>

fun setdefault :: "'k \<Rightarrow> 'v \<Rightarrow> ('k \<times> 'v) list \<Rightarrow> ('k \<times> 'v) list" where
  "setdefault k v [] = [(k, v)]"
| "setdefault k v ((k', v') # rest) =
     (if k' = k then (k', v') # rest else (k', v') # setdefault k v rest)"

text \<open>
  \<^verbatim>\<open>m1_pks.update(m2_pks); m1_fields.update(m2_fields)\<close> on the pair stored under
  \<^verbatim>\<open>model\<close>: both sets are updated in place, so the entry keeps its position.
\<close>

fun update_sets :: "'m \<Rightarrow> 'a set \<Rightarrow> 'b set \<Rightarrow> ('m, 'a, 'b) mm \<Rightarrow> ('m, 'a, 'b) mm" where
  "update_sets model m2_pks m2_fields [] = []"
| "update_sets model m2_pks m2_fields ((m, (m1_pks, m1_fields)) # rest) =
     (if m = model then (m, (m1_pks \<union> m2_pks, m1_fields \<union> m2_fields)) # rest
      else (m, (m1_pks, m1_fields)) # update_sets model m2_pks m2_fields rest)"

text \<open>One round of the loop of \<^verbatim>\<open>merge_pk_maps\<close>, for the item \<^verbatim>\<open>(model, data)\<close> of \<^verbatim>\<open>mm2\<close>.\<close>

fun merge_step :: "('m, 'a, 'b) mm \<Rightarrow> 'm \<times> ('a set \<times> 'b set) \<Rightarrow> ('m, 'a, 'b) mm" where
  "merge_step mm1 (model, (m2_pks, m2_fields)) =
     update_sets model m2_pks m2_fields (setdefault model ({}, {}) mm1)"

text \<open>
  \<^verbatim>\<open>
  def merge_pk_maps(mm1, mm2):
      for model, data in mm2.items():
          m2_pks, m2_fields = data
          m1_pks, m1_fields = mm1.setdefault(model, [set(), set()])
          m1_pks.update(m2_pks)
          m1_fields.update(m2_fields)
      return mm1
  \<close>
  The model returns the value of \<^verbatim>\<open>mm1\<close> after the loop.
\<close>

definition merge_pk_maps :: "('m, 'a, 'b) mm \<Rightarrow> ('m, 'a, 'b) mm \<Rightarrow> ('m, 'a, 'b) mm" where
  "merge_pk_maps mm1 mm2 = foldl merge_step mm1 mm2"

text \<open>The key set and the field-name set a map holds for a model (empty when absent).\<close>

definition pks_of :: "('m, 'a, 'b) mm \<Rightarrow> 'm \<Rightarrow> 'a set" where
  "pks_of mm m = (case map_of mm m of None \<Rightarrow> {} | Some (ps, fs) \<Rightarrow> ps)"

definition fields_of :: "('m, 'a, 'b) mm \<Rightarrow> 'm \<Rightarrow> 'b set" where
  "fields_of mm m = (case map_of mm m of None \<Rightarrow> {} | Some (ps, fs) \<Rightarrow> fs)"

section \<open>Querysets, the resolver and the field declarations\<close>

text \<open>
  Querysets are lazy in Django: the handlers only build them and hand them to the
  resolver.  \<^verbatim>\<open>model.objects.filter(pk__in=pks)\<close> and \<^verbatim>\<open>getattr(instance, name).all()\<close> are
  the two the handlers build.
\<close>

datatype queryset =
    FilterPkIn model "pk set"
  | RelatedAll model_instance field

datatype target = Inst model_instance | QS queryset

text \<open>
  The members of \<^verbatim>\<open>model._meta.get_fields()\<close> as far as \<^verbatim>\<open>m2m_handler\<close> inspects them.
  A \<^verbatim>\<open>ManyToManyField\<close> has a name and reaches its junction model as
  \<^verbatim>\<open>f.remote_field.through\<close>; a \<^verbatim>\<open>ManyToManyRel\<close> (the reverse side) has a name, its own
  attribute \<^verbatim>\<open>through\<close> and the name of the forward field, \<^verbatim>\<open>f.remote_field.name\<close>.  Only
  these two have \<^verbatim>\<open>f.many_to_many\<close> set.
\<close>

datatype field_decl =
    ManyToManyField (name: field) (remote_through: model)
  | ManyToManyRel (name: field) (through: model) (remote_name: field)
  | OtherField (name: field)

fun many_to_many :: "field_decl \<Rightarrow> bool" where
  "many_to_many (ManyToManyField n t) = True"
| "many_to_many (ManyToManyRel n t rn) = True"
| "many_to_many (OtherField n) = False"

text \<open>\<^verbatim>\<open>f.through if hasattr(f, 'through') else f.remote_field.through\<close>, for a many-to-many \<^verbatim>\<open>f\<close>.\<close>

fun junction :: "field_decl \<Rightarrow> model option" where
  "junction (ManyToManyRel n t rn) = Some t"
| "junction (ManyToManyField n t) = Some t"
| "junction (OtherField n) = None"

text \<open>\<^verbatim>\<open>isinstance(f, ManyToManyRel) and f.through == sender\<close>\<close>

fun is_rel_through :: "model \<Rightarrow> field_decl \<Rightarrow> bool" where
  "is_rel_through sender (ManyToManyRel n t rn) = (t = sender)"
| "is_rel_through sender (ManyToManyField n t) = False"
| "is_rel_through sender (OtherField n) = False"

text \<open>
  The resolver (\<^verbatim>\<open>active_resolver\<close>, module \<^verbatim>\<open>resolver\<close>) and Django's model metadata are
  not part of \<^verbatim>\<open>handlers.py\<close>; what the handlers read from them is a parameter:
  \<^item> \<^verbatim>\<open>_fk_map\<close>, a dictionary from a model to the set of its contributing foreign keys;
  \<^item> the value of \<^verbatim>\<open>_querysets_for_update(model, target, update_fields, pk_list)\<close>; the
    handlers always pass \<^verbatim>\<open>pk_list=True\<close> and never an \<^verbatim>\<open>update_fields\<close>, which is \<open>None\<close> then;
  \<^item> the value of \<^verbatim>\<open>preupdate_dependent(instance, model)\<close>;
  \<^item> \<^verbatim>\<open>model._meta.get_fields()\<close>;
  \<^item> the names under which an instance of a model has a related manager, that is, the
    names \<open>n\<close> for which \<^verbatim>\<open>getattr(instance, n).all()\<close> is a queryset: the names of the
    model's own many-to-many fields and the accessor names of its reverse relations (the
    \<^verbatim>\<open>related_name\<close>, or by default the lower-cased name of the other model followed by
    \<^verbatim>\<open>_set\<close>).  For any other name the expression raises \<^verbatim>\<open>AttributeError\<close>: the instance
    has no such attribute, or its value has no method \<^verbatim>\<open>all\<close>.  The name of a
    \<^verbatim>\<open>ManyToManyRel\<close> is the accessor name only when a \<^verbatim>\<open>related_name\<close> is declared.
  The query results depend on the database at the time of the call, so a handler that
  runs before a mutation and one that runs after it are given different environments.
\<close>

record env =
  fk_map :: "model \<rightharpoonup> field set"
  querysets_for_update :: "model \<Rightarrow> target \<Rightarrow> field set option \<Rightarrow> bool \<Rightarrow> pk_map"
  preupdate_dependent :: "model_instance \<Rightarrow> model \<Rightarrow> pk_map"
  get_fields :: "model \<Rightarrow> field_decl list"
  managers :: "model \<Rightarrow> field set"

text \<open>
  The calls a handler makes into the resolver, in the order it makes them:
  \<^item> \<^verbatim>\<open>_querysets_for_update(model, target, update_fields, pk_list)\<close>;
  \<^item> \<^verbatim>\<open>preupdate_dependent(instance, model)\<close>;
  \<^item> \<^verbatim>\<open>update_dependent(target, model, update_fields, old=..., update_local=False)\<close>, where
    an argument that is not passed is \<open>None\<close>;
  \<^item> \<^verbatim>\<open>bulk_updater(qs, fields)\<close>.
  The first two query the database, the last two recompute dependent records.
\<close>

datatype call =
    QuerysetsForUpdate model target "field set option" bool
  | PreupdateDependent model_instance model
  | UpdateDependent target "model option" "field set option" "pk_map option"
  | BulkUpdater queryset "field set"

text \<open>
  The module state: the four buffers \<^verbatim>\<open>DELETES\<close>, \<^verbatim>\<open>M2M_REMOVE\<close>, \<^verbatim>\<open>M2M_CLEAR\<close> and
  \<^verbatim>\<open>UPDATE_OLD\<close>, dictionaries keyed by instance (by \<open>key_of\<close>), and the trace of resolver calls so far.
\<close>

record world =
  DELETES :: "instance_key \<rightharpoonup> pk_map"
  M2M_REMOVE :: "instance_key \<rightharpoonup> pk_map"
  M2M_CLEAR :: "instance_key \<rightharpoonup> pk_map"
  UPDATE_OLD :: "instance_key \<rightharpoonup> pk_map"
  calls :: "call list"

definition call :: "call \<Rightarrow> world \<Rightarrow> world" where
  "call c w = w\<lparr>calls := calls w @ [c]\<rparr>"

text \<open>\<^verbatim>\<open>d.pop(k, default)\<close>: the value popped and the dictionary afterwards.\<close>

definition pop :: "('k \<rightharpoonup> 'v) \<Rightarrow> 'k \<Rightarrow> 'v \<Rightarrow> 'v \<times> ('k \<rightharpoonup> 'v)" where
  "pop d k dflt = (case d k of None \<Rightarrow> (dflt, d) | Some v \<Rightarrow> (v, d(k := None)))"

text \<open>
  The keyword arguments of the \<^verbatim>\<open>pre_save\<close> and \<^verbatim>\<open>post_save\<close> signals that the handlers
  read: \<^verbatim>\<open>raw\<close> and \<^verbatim>\<open>update_fields\<close> (\<open>None\<close> or a set of field names).
\<close>

record save_kwargs =
  kw_raw :: bool
  kw_update_fields :: "field set option"

section \<open>The save handlers\<close>

text \<open>
  \<^verbatim>\<open>
  def get_old_handler(sender, instance, **kwargs):
      if kwargs.get('raw'):
          return
      if instance._state.adding:
          return
      contributing_fks = active_resolver._fk_map.get(sender)
      if not contributing_fks:
          return
      candidates = set(contributing_fks)
      if kwargs.get('update_fields'):
          candidates &= kwargs.get('update_fields')
      if not candidates:
          return
      data = active_resolver.preupdate_dependent(instance, sender)
      if data:
          UPDATE_OLD[instance] = data
      return
  \<close>
  \<^verbatim>\<open>kwargs.get('update_fields')\<close> is falsy when it is \<open>None\<close> and when it is an empty set.
  Django sends \<^verbatim>\<open>pre_save\<close> with \<open>None\<close> or with a non-empty set only: \<^verbatim>\<open>Model.save\<close> returns
  before the signal when \<^verbatim>\<open>update_fields\<close> is empty.
\<close>

definition get_old_handler :: "env \<Rightarrow> model \<Rightarrow> model_instance \<Rightarrow> save_kwargs \<Rightarrow> world \<Rightarrow> world" where
  "get_old_handler rs sender inst kwargs w =
     (if kw_raw kwargs then w
      else if adding inst then w
      else case fk_map rs sender of
        None \<Rightarrow> w
      | Some contributing_fks \<Rightarrow>
          if contributing_fks = {} then w
          else
            let candidates =
              (case kw_update_fields kwargs of
                 None \<Rightarrow> contributing_fks
               | Some update_fields \<Rightarrow>
                   if update_fields = {} then contributing_fks
                   else contributing_fks \<inter> update_fields)
            in if candidates = {} then w
               else
                 let data = preupdate_dependent rs inst sender;
                     w1 = call (PreupdateDependent inst sender) w
                 in if data \<noteq> [] then w1\<lparr>UPDATE_OLD := (UPDATE_OLD w1)(key_of inst \<mapsto> data)\<rparr>
                    else w1)"

text \<open>
  \<^verbatim>\<open>
  def postsave_handler(sender, instance, **kwargs):
      if not kwargs.get('raw'):
          active_resolver.update_dependent(
              instance, sender, kwargs.get('update_fields'),
              old=UPDATE_OLD.pop(instance, []), update_local=False
          )
  \<close>
\<close>

definition postsave_handler :: "env \<Rightarrow> model \<Rightarrow> model_instance \<Rightarrow> save_kwargs \<Rightarrow> world \<Rightarrow> world" where
  "postsave_handler rs sender inst kwargs w =
     (if \<not> kw_raw kwargs then
        let (old, update_old) = pop (UPDATE_OLD w) (key_of inst) []
        in call (UpdateDependent (Inst inst) (Some sender) (kw_update_fields kwargs) (Some old))
             (w\<lparr>UPDATE_OLD := update_old\<rparr>)
      else w)"

section \<open>The delete handlers\<close>

text \<open>
  \<^verbatim>\<open>
  def predelete_handler(sender, instance, **_):
      data = active_resolver._querysets_for_update(sender, instance, pk_list=True)
      if data:
          DELETES[instance] = data
  \<close>
\<close>

definition predelete_handler :: "env \<Rightarrow> model \<Rightarrow> model_instance \<Rightarrow> world \<Rightarrow> world" where
  "predelete_handler rs sender inst w =
     (let data = querysets_for_update rs sender (Inst inst) None True;
          w1 = call (QuerysetsForUpdate sender (Inst inst) None True) w
      in if data \<noteq> [] then w1\<lparr>DELETES := (DELETES w1)(key_of inst \<mapsto> data)\<rparr> else w1)"

text \<open>
  The loop shared by the three post handlers:
  \<^verbatim>\<open>
      for model, data in updates.items():
          pks, fields = data
          qs = model.objects.filter(pk__in=pks)
          active_resolver.bulk_updater(qs, fields)
  \<close>
\<close>

fun bulk_update :: "pk_map \<Rightarrow> world \<Rightarrow> world" where
  "bulk_update [] w = w"
| "bulk_update ((model, (pks, fs)) # updates) w =
     bulk_update updates (call (BulkUpdater (FilterPkIn model pks) fs) w)"

text \<open>
  \<^verbatim>\<open>
  def postdelete_handler(sender, instance, **kwargs):
      updates = DELETES.pop(instance, {})
      for model, data in updates.items():
          ...
  \<close>
\<close>

definition postdelete_handler :: "env \<Rightarrow> model \<Rightarrow> model_instance \<Rightarrow> world \<Rightarrow> world" where
  "postdelete_handler rs sender inst w =
     (let (updates, deletes) = pop (DELETES w) (key_of inst) []
      in bulk_update updates (w\<lparr>DELETES := deletes\<rparr>))"

section \<open>The many-to-many handler\<close>

text \<open>
  The keyword arguments of the \<^verbatim>\<open>m2m_changed\<close> signal that the handler reads.  An
  exception leaves the handler with the state as it is at the raise.
\<close>

datatype m2m_action = pre_add | post_add | pre_remove | post_remove | pre_clear | post_clear

record m2m_kwargs =
  kw_action :: m2m_action
  kw_model :: model
  kw_pk_set :: "pk set"
  kw_reverse :: bool

datatype error = IndexError | AttributeError

datatype outcome = Returned | Raised error

text \<open>
  The two loops of the \<^verbatim>\<open>post_add\<close> branch have the shape
  \<^verbatim>\<open>
      for f in m2m_fields:
          through = f.through if hasattr(f, 'through') else f.remote_field.through
          if through == sender:
              active_resolver.update_dependent(target, update_fields=[f.name], update_local=False)
              break
  \<close>
  The list \<^verbatim>\<open>[f.name]\<close> is the one-element set of field names here.
\<close>

definition update_first_match :: "model \<Rightarrow> target \<Rightarrow> field_decl list \<Rightarrow> world \<Rightarrow> world" where
  "update_first_match sender tgt m2m_fields w =
     (case find (\<lambda>f. junction f = Some sender) m2m_fields of
        None \<Rightarrow> w
      | Some f \<Rightarrow> call (UpdateDependent tgt None (Some {name f}) None) w)"

text \<open>
  The tail shared by \<^verbatim>\<open>pre_remove\<close> and \<^verbatim>\<open>pre_clear\<close>:
  \<^verbatim>\<open>
      if other:
          merge_pk_maps(data, other)
      if data:
          BUFFER[instance] = data
  \<close>
\<close>

definition merge_other :: "pk_map \<Rightarrow> pk_map \<Rightarrow> pk_map" where
  "merge_other data other = (if other \<noteq> [] then merge_pk_maps data other else data)"

definition store :: "model_instance \<Rightarrow> pk_map \<Rightarrow> (instance_key \<rightharpoonup> pk_map) \<Rightarrow> (instance_key \<rightharpoonup> pk_map)" where
  "store inst data buffer = (if data \<noteq> [] then buffer(key_of inst \<mapsto> data) else buffer)"

text \<open>
  \<^verbatim>\<open>
  def m2m_handler(sender, instance, **kwargs):
      action = kwargs.get('action')
      model = kwargs['model']
      if action == 'post_add':
          pks = kwargs['pk_set']
          m2m_fields = [f for f in type(instance)._meta.get_fields() if f.many_to_many]
          for f in m2m_fields: ...
          m2m_fields2 = [f for f in model._meta.get_fields() if f.many_to_many]
          for f in m2m_fields2: ...
      elif action == 'pre_remove':
          data = active_resolver._querysets_for_update(type(instance), instance, pk_list=True)
          pks = kwargs['pk_set']
          other = active_resolver._querysets_for_update(
              model, model.objects.filter(pk__in=pks), pk_list=True)
          if other:
              merge_pk_maps(data, other)
          if data:
              M2M_REMOVE[instance] = data
      elif action == 'post_remove':
          updates = M2M_REMOVE.pop(instance, {})
          for model, data in updates.items(): ...
      elif action == 'pre_clear':
          data = active_resolver._querysets_for_update(type(instance), instance, pk_list=True)
          inst_model = type(instance)
          if kwargs['reverse']:
              rel = list(filter(
                  lambda f: isinstance(f, ManyToManyRel) and f.through == sender,
                  inst_model._meta.get_fields()))[0]
              other = active_resolver._querysets_for_update(
                  model, getattr(instance, rel.name).all(), pk_list=True)
          else:
              field = list(filter(
                  lambda f: isinstance(f, ManyToManyRel) and f.through == sender,
                  model._meta.get_fields()))[0]
              other = active_resolver._querysets_for_update(
                  model, getattr(instance, field.remote_field.name).all(), pk_list=True)
          if other:
              merge_pk_maps(data, other)
          if data:
              M2M_CLEAR[instance] = data
      elif action == 'post_clear':
          updates = M2M_CLEAR.pop(instance, {})
          for model, data in updates.items(): ...
  \<close>
  One branch per \<^verbatim>\<open>action\<close>; an action without a branch (\<^verbatim>\<open>pre_add\<close>) does nothing.  Taking
  element 0 of an empty list raises \<^verbatim>\<open>IndexError\<close>, and \<^verbatim>\<open>getattr(instance, n).all()\<close>
  raises \<^verbatim>\<open>AttributeError\<close> unless the instance has a related manager under the name \<open>n\<close>;
  both happen after the first query and before the second.
\<close>

definition m2m_handler :: "env \<Rightarrow> model \<Rightarrow> model_instance \<Rightarrow> m2m_kwargs \<Rightarrow> world \<Rightarrow> outcome \<times> world" where
  "m2m_handler rs sender inst kwargs w =
     (let model = kw_model kwargs in
      case kw_action kwargs of
        post_add \<Rightarrow>
          let pks = kw_pk_set kwargs;
              m2m_fields = filter many_to_many (get_fields rs (inst_type inst));
              w1 = update_first_match sender (Inst inst) m2m_fields w;
              m2m_fields2 = filter many_to_many (get_fields rs model);
              w2 = update_first_match sender (QS (FilterPkIn model pks)) m2m_fields2 w1
          in (Returned, w2)
      | pre_remove \<Rightarrow>
          let data = querysets_for_update rs (inst_type inst) (Inst inst) None True;
              w1 = call (QuerysetsForUpdate (inst_type inst) (Inst inst) None True) w;
              pks = kw_pk_set kwargs;
              other = querysets_for_update rs model (QS (FilterPkIn model pks)) None True;
              w2 = call (QuerysetsForUpdate model (QS (FilterPkIn model pks)) None True) w1;
              data = merge_other data other
          in (Returned, w2\<lparr>M2M_REMOVE := store inst data (M2M_REMOVE w2)\<rparr>)
      | post_remove \<Rightarrow>
          let (updates, m2m_remove) = pop (M2M_REMOVE w) (key_of inst) []
          in (Returned, bulk_update updates (w\<lparr>M2M_REMOVE := m2m_remove\<rparr>))
      | pre_clear \<Rightarrow>
          let data = querysets_for_update rs (inst_type inst) (Inst inst) None True;
              w1 = call (QuerysetsForUpdate (inst_type inst) (Inst inst) None True) w;
              inst_model = inst_type inst
          in if kw_reverse kwargs then
               (case filter (is_rel_through sender) (get_fields rs inst_model) of
                  [] \<Rightarrow> (Raised IndexError, w1)
                | rel # _ \<Rightarrow>
                    if name rel \<notin> managers rs (inst_type inst) then (Raised AttributeError, w1)
                    else
                      let qs = QS (RelatedAll inst (name rel));
                          other = querysets_for_update rs model qs None True;
                          w2 = call (QuerysetsForUpdate model qs None True) w1;
                          data = merge_other data other
                      in (Returned, w2\<lparr>M2M_CLEAR := store inst data (M2M_CLEAR w2)\<rparr>))
             else
               (case filter (is_rel_through sender) (get_fields rs model) of
                  [] \<Rightarrow> (Raised IndexError, w1)
                | field # _ \<Rightarrow>
                    if remote_name field \<notin> managers rs (inst_type inst)
                    then (Raised AttributeError, w1)
                    else
                      let qs = QS (RelatedAll inst (remote_name field));
                          other = querysets_for_update rs model qs None True;
                          w2 = call (QuerysetsForUpdate model qs None True) w1;
                          data = merge_other data other
                      in (Returned, w2\<lparr>M2M_CLEAR := store inst data (M2M_CLEAR w2)\<rparr>))
      | post_clear \<Rightarrow>
          let (updates, m2m_clear) = pop (M2M_CLEAR w) (key_of inst) []
          in (Returned, bulk_update updates (w\<lparr>M2M_CLEAR := m2m_clear\<rparr>))
      | pre_add \<Rightarrow> (Returned, w))"

section \<open>What a post handler finds and does\<close>

text \<open>
  The value of \<^verbatim>\<open>BUFFER.pop(instance, {})\<close>: the entry under the instance, the empty map when
  there is none.
\<close>

definition pending :: "(instance_key \<rightharpoonup> pk_map) \<Rightarrow> model_instance \<Rightarrow> pk_map" where
  "pending buffer inst = (case buffer (key_of inst) of None \<Rightarrow> [] | Some data \<Rightarrow> data)"

text \<open>The \<^verbatim>\<open>bulk_updater\<close> calls of the loop over \<^verbatim>\<open>updates.items()\<close>, one per model, in order.\<close>

definition bulk_calls :: "pk_map \<Rightarrow> call list" where
  "bulk_calls updates = map (\<lambda>(model, (pks, fs)). BulkUpdater (FilterPkIn model pks) fs) updates"

section \<open>\<^verbatim>\<open>merge_pk_maps\<close> on a store of set objects\<close>

text \<open>
  Python sets are mutable objects, and \<^verbatim>\<open>merge_pk_maps\<close> updates them in place.  Here a set
  object lives at an address of a store, and a dependent-update map holds, per model, the
  addresses of its two sets (the pair \<^verbatim>\<open>[pks, fields]\<close>).  \<^verbatim>\<open>set()\<close> allocates the next free
  address; \<^verbatim>\<open>s1.update(s2)\<close> writes the union to the address of \<^verbatim>\<open>s1\<close>.  The argument
  \<^verbatim>\<open>[set(), set()]\<close> of \<^verbatim>\<open>setdefault\<close> is evaluated in every round, before the lookup.
\<close>

type_synonym addr = nat

record 'e heap =
  sets :: "addr \<rightharpoonup> 'e set"
  next_addr :: addr

type_synonym 'm ref_map = "('m \<times> (addr \<times> addr)) list"

definition new_set :: "'e heap \<Rightarrow> addr \<times> 'e heap" where
  "new_set h =
     (next_addr h, h\<lparr>sets := (sets h)(next_addr h \<mapsto> {}), next_addr := Suc (next_addr h)\<rparr>)"

definition set_update :: "addr \<Rightarrow> addr \<Rightarrow> 'e heap \<Rightarrow> 'e heap" where
  "set_update a1 a2 h =
     (case (sets h a1, sets h a2) of
        (Some s1, Some s2) \<Rightarrow> h\<lparr>sets := (sets h)(a1 \<mapsto> s1 \<union> s2)\<rparr>
      | _ \<Rightarrow> h)"

fun heap_merge_step :: "'e heap \<times> 'm ref_map \<Rightarrow> 'm \<times> (addr \<times> addr) \<Rightarrow> 'e heap \<times> 'm ref_map" where
  "heap_merge_step (h, mm1) (model, (m2_pks, m2_fields)) =
     (let (p, h1) = new_set h;
          (f, h2) = new_set h1;
          mm1' = setdefault model (p, f) mm1
      in case map_of mm1' model of
           None \<Rightarrow> (h2, mm1')
         | Some (m1_pks, m1_fields) \<Rightarrow>
             (set_update m1_fields m2_fields (set_update m1_pks m2_pks h2), mm1'))"

definition heap_merge_pk_maps :: "'e heap \<Rightarrow> 'm ref_map \<Rightarrow> 'm ref_map \<Rightarrow> 'e heap \<times> 'm ref_map" where
  "heap_merge_pk_maps h mm1 mm2 = foldl heap_merge_step (h, mm1) mm2"

text \<open>
  The set objects a map reaches, as a set and in order; the contents of an object; the
  value a map has in a store.
\<close>

definition refs :: "'m ref_map \<Rightarrow> addr set" where
  "refs mm = (\<Union>(m, (a, b)) \<in> set mm. {a, b})"

definition ref_list :: "'m ref_map \<Rightarrow> addr list" where
  "ref_list mm = concat (map (\<lambda>(m, (a, b)). [a, b]) mm)"

definition deref :: "'e heap \<Rightarrow> addr \<Rightarrow> 'e set" where
  "deref h a = (case sets h a of None \<Rightarrow> {} | Some s \<Rightarrow> s)"

definition abs_map :: "'e heap \<Rightarrow> 'm ref_map \<Rightarrow> ('m, 'e, 'e) mm" where
  "abs_map h mm = map (\<lambda>(m, (a, b)). (m, (deref h a, deref h b))) mm"

text \<open>
  The invariant of the loop with respect to a set \<open>R\<close> of addresses the first map does
  not reach: the objects at \<open>R\<close> stay as they were in the initial store \<open>h0\<close>, and the map
  reaches only objects of the initial map \<open>mm0\<close> or objects allocated since.
\<close>

definition separate :: "addr set \<Rightarrow> 'e heap \<Rightarrow> 'm ref_map \<Rightarrow> 'e heap \<times> 'm ref_map \<Rightarrow> bool" where
  "separate R h0 mm0 s =
     (case s of (h, mm) \<Rightarrow>
        dom (sets h) \<subseteq> {..<next_addr h} \<and> refs mm \<subseteq> dom (sets h) \<and> R \<subseteq> dom (sets h) \<and>
        refs mm \<inter> R = {} \<and> (\<forall>a \<in> R. sets h a = sets h0 a) \<and> next_addr h0 \<le> next_addr h \<and>
        refs mm \<subseteq> refs mm0 \<union> {next_addr h0..<next_addr h})"

section \<open>Example inputs\<close>

text \<open>
  The example application: \<^verbatim>\<open>Bar\<close> has a foreign key \<^verbatim>\<open>foo\<close> to \<^verbatim>\<open>Foo\<close> and a computed field
  \<^verbatim>\<open>klaus\<close>.  For the many-to-many examples \<^verbatim>\<open>Foo\<close> declares \<^verbatim>\<open>bars\<close> with the junction model
  \<^verbatim>\<open>Foo_bars\<close>, and \<^verbatim>\<open>Bar\<close> sees it as the reverse relation \<^verbatim>\<open>foos\<close>
  (\<^verbatim>\<open>related_name='foos'\<close>); with a hidden reverse relation (\<^verbatim>\<open>related_name='+'\<close>) \<^verbatim>\<open>Bar\<close>
  has no such member; and without a \<^verbatim>\<open>related_name\<close> the reverse relation has the name
  \<^verbatim>\<open>foo\<close> while the manager on a \<^verbatim>\<open>Bar\<close> is \<^verbatim>\<open>foo_set\<close>.
\<close>

definition foo1 :: model_instance where
  "foo1 = \<lparr>inst_type = ''Foo'', inst_pk = 1, adding = False\<rparr>"

definition bar2 :: model_instance where
  "bar2 = \<lparr>inst_type = ''Bar'', inst_pk = 2, adding = False\<rparr>"

definition idle :: world where
  "idle = \<lparr>DELETES = Map.empty, M2M_REMOVE = Map.empty, M2M_CLEAR = Map.empty,
     UPDATE_OLD = Map.empty, calls = []\<rparr>"

definition visible_fields :: "model \<Rightarrow> field_decl list" where
  "visible_fields m =
     (if m = ''Foo'' then [OtherField ''name'', ManyToManyField ''bars'' ''Foo_bars'']
      else if m = ''Bar'' then [OtherField ''foo'', ManyToManyRel ''foos'' ''Foo_bars'' ''bars'']
      else [])"

definition hidden_fields :: "model \<Rightarrow> field_decl list" where
  "hidden_fields m =
     (if m = ''Foo'' then [OtherField ''name'', ManyToManyField ''bars'' ''Foo_bars'']
      else if m = ''Bar'' then [OtherField ''foo'']
      else [])"

definition unnamed_fields :: "model \<Rightarrow> field_decl list" where
  "unnamed_fields m =
     (if m = ''Foo'' then [OtherField ''name'', ManyToManyField ''bars'' ''Foo_bars'']
      else if m = ''Bar'' then [OtherField ''name'', ManyToManyRel ''foo'' ''Foo_bars'' ''bars'']
      else [])"

definition unnamed_managers :: "model \<Rightarrow> field set" where
  "unnamed_managers m =
     (if m = ''Foo'' then {''bars''} else if m = ''Bar'' then {''foo_set''} else {})"

text \<open>
  A database state in which a query for the dependents of an instance yields \<open>data\<close> and
  a query for the dependents of a queryset yields \<open>other\<close>; the related managers are
  those of the declaration with \<^verbatim>\<open>related_name='foos'\<close>.
\<close>

definition db :: "pk_map \<Rightarrow> pk_map \<Rightarrow> (model \<Rightarrow> field_decl list) \<Rightarrow> env" where
  "db data other fs =
     \<lparr>fk_map = [''Bar'' \<mapsto> {''foo''}],
      querysets_for_update =
        (\<lambda>model tgt update_fields pk_list. case tgt of Inst i \<Rightarrow> data | QS qs \<Rightarrow> other),
      preupdate_dependent = (\<lambda>inst model. data),
      get_fields = fs,
      managers = (\<lambda>m. if m = ''Foo'' then {''bars''} else if m = ''Bar'' then {''foos''} else {})\<rparr>"

definition dependents :: pk_map where
  "dependents = [(''Bar'', ({1, 2}, {''klaus''}))]"

definition stale :: pk_map where
  "stale = [(''Baz'', ({7}, {''total''}))]"

section \<open>The merge of dependent-update maps\<close>

declare merge_step.simps [simp del]

lemma keys_setdefault:
  "keys (setdefault k v d) = (if k \<in> set (keys d) then keys d else keys d @ [k])"
  by (induction d) (force simp: keys_def)+

lemma map_of_setdefault:
  "map_of (setdefault k v d) = (case map_of d k of None \<Rightarrow> (map_of d)(k \<mapsto> v) | Some _ \<Rightarrow> map_of d)"
  by (induction d) (auto simp: fun_eq_iff split: option.splits)

lemma keys_update_sets: "keys (update_sets m ps fs d) = keys d"
  by (induction d) (auto simp: keys_def)

lemma map_of_update_sets:
  "map_of (update_sets m ps fs d) =
     (case map_of d m of None \<Rightarrow> map_of d
      | Some (ps', fs') \<Rightarrow> (map_of d)(m \<mapsto> (ps' \<union> ps, fs' \<union> fs)))"
  by (induction d) (auto simp: fun_eq_iff split: option.splits)

lemma keys_merge_step:
  "keys (merge_step d (m, (ps, fs))) = (if m \<in> set (keys d) then keys d else keys d @ [m])"
  by (simp add: merge_step.simps keys_update_sets keys_setdefault)

lemma map_of_merge_step:
  "map_of (merge_step d (m, (ps, fs))) =
     (map_of d)(m \<mapsto> (pks_of d m \<union> ps, fields_of d m \<union> fs))"
  by (auto simp: merge_step.simps map_of_update_sets map_of_setdefault pks_of_def fields_of_def fun_eq_iff
      split: option.splits)

lemma distinct_merge_step:
  "distinct (keys d) \<Longrightarrow> distinct (keys (merge_step d e))"
  by (cases e) (auto simp: keys_merge_step)

lemma distinct_merge_pk_maps:
  "distinct (keys mm1) \<Longrightarrow> distinct (keys (merge_pk_maps mm1 mm2))"
  unfolding merge_pk_maps_def
  by (induction mm2 arbitrary: mm1) (auto simp: distinct_merge_step)

lemma set_keys_merge_pk_maps:
  "set (keys (merge_pk_maps mm1 mm2)) = set (keys mm1) \<union> set (keys mm2)"
  unfolding merge_pk_maps_def
proof (induction mm2 arbitrary: mm1)
  case Nil
  show ?case by (simp add: keys_def)
next
  case (Cons e mm2)
  obtain m ps fs where e: "e = (m, (ps, fs))" by (cases e) auto
  have "set (keys (merge_step mm1 e)) = insert m (set (keys mm1))"
    by (auto simp: e keys_merge_step)
  with Cons.IH [of "merge_step mm1 e"] show ?case
    by (auto simp: e keys_def)
qed

lemma pks_of_merge_step:
  "pks_of (merge_step d (k, (ps, fs))) m = (if m = k then pks_of d k \<union> ps else pks_of d m)"
  by (simp add: pks_of_def [of "merge_step d (k, (ps, fs))"] map_of_merge_step)
    (simp add: pks_of_def)

lemma fields_of_merge_step:
  "fields_of (merge_step d (k, (ps, fs))) m =
     (if m = k then fields_of d k \<union> fs else fields_of d m)"
  by (simp add: fields_of_def [of "merge_step d (k, (ps, fs))"] map_of_merge_step)
    (simp add: fields_of_def)

lemma map_of_keys: "map_of d m = None \<longleftrightarrow> m \<notin> set (keys d)"
  by (simp add: keys_def map_of_eq_None_iff)

lemma pks_of_absent: "m \<notin> set (keys d) \<Longrightarrow> pks_of d m = {}"
  by (simp add: pks_of_def map_of_keys [symmetric])

lemma fields_of_absent: "m \<notin> set (keys d) \<Longrightarrow> fields_of d m = {}"
  by (simp add: fields_of_def map_of_keys [symmetric])

lemma map_of_present:
  "m \<in> set (keys d) \<Longrightarrow> map_of d m = Some (pks_of d m, fields_of d m)"
  by (cases "map_of d m") (auto simp: map_of_keys pks_of_def fields_of_def)

text \<open>
  When the keys of \<open>mm2\<close> are distinct, the merged map holds per model the unions of the
  two maps' sets.
\<close>

lemma sets_of_merge_pk_maps:
  "distinct (keys mm2) \<Longrightarrow>
     pks_of (merge_pk_maps mm1 mm2) m = pks_of mm1 m \<union> pks_of mm2 m \<and>
     fields_of (merge_pk_maps mm1 mm2) m = fields_of mm1 m \<union> fields_of mm2 m"
  unfolding merge_pk_maps_def
proof (induction mm2 arbitrary: mm1)
  case Nil
  show ?case by (simp add: pks_of_def fields_of_def)
next
  case (Cons e mm2)
  obtain k ps fs where e: "e = (k, (ps, fs))" by (cases e) auto
  from Cons.prems have k: "k \<notin> set (keys mm2)" and d: "distinct (keys mm2)"
    by (simp_all add: e keys_def)
  have hd_pks: "pks_of ((k, (ps, fs)) # mm2) m = (if m = k then ps else pks_of mm2 m)"
    by (simp add: pks_of_def)
  have hd_fields: "fields_of ((k, (ps, fs)) # mm2) m = (if m = k then fs else fields_of mm2 m)"
    by (simp add: fields_of_def)
  from Cons.IH [OF d, of "merge_step mm1 e"] show ?case
    using k
    by (auto simp: e hd_pks hd_fields pks_of_merge_step fields_of_merge_step
        pks_of_absent fields_of_absent)
qed

text \<open>Two maps with the same keys and the same sets per key are equal as dictionaries.\<close>

lemma map_of_eqI:
  assumes "set (keys d) = set (keys d')"
    and "\<And>m. pks_of d m = pks_of d' m" and "\<And>m. fields_of d m = fields_of d' m"
  shows "map_of d = map_of d'"
proof
  fix m
  show "map_of d m = map_of d' m"
  proof (cases "m \<in> set (keys d)")
    case True
    with assms show ?thesis by (simp add: map_of_present)
  next
    case False
    with assms(1) have "map_of d m = None" and "map_of d' m = None"
      by (simp_all add: map_of_keys)
    then show ?thesis by simp
  qed
qed

lemma merge_step_fresh:
  "k \<notin> set (keys d) \<Longrightarrow> merge_step d (k, (ps, fs)) = d @ [(k, (ps, fs))]"
  by (induction d) (auto simp: merge_step.simps keys_def)

lemma foldl_merge_step_fresh:
  "distinct (keys (d @ mm)) \<Longrightarrow> foldl merge_step d mm = d @ mm"
proof (induction mm arbitrary: d)
  case Nil
  show ?case by simp
next
  case (Cons e mm)
  obtain k ps fs where e: "e = (k, (ps, fs))" by (cases e) auto
  from Cons.prems have "k \<notin> set (keys d)" by (auto simp: e keys_def)
  then have step: "merge_step d e = d @ [e]" by (simp add: e merge_step_fresh)
  from Cons.prems have "distinct (keys ((d @ [e]) @ mm))" by (simp add: keys_def)
  from Cons.IH [OF this] show ?case by (simp add: step)
qed

lemma merge_step_mono:
  "pks_of d m \<subseteq> pks_of (merge_step d e) m \<and> fields_of d m \<subseteq> fields_of (merge_step d e) m"
  by (cases e) (auto simp: pks_of_merge_step fields_of_merge_step)

lemma merge_pk_maps_mono:
  "pks_of mm1 m \<subseteq> pks_of (merge_pk_maps mm1 mm2) m \<and>
   fields_of mm1 m \<subseteq> fields_of (merge_pk_maps mm1 mm2) m"
  unfolding merge_pk_maps_def
proof (induction mm2 arbitrary: mm1)
  case Nil
  show ?case by simp
next
  case (Cons e mm2)
  from Cons.IH [of "merge_step mm1 e"] merge_step_mono [of mm1 m e]
  show ?case by auto
qed

text \<open>
  Claim C4.  For dependent-update maps \<open>A\<close>, \<open>B\<close>, \<open>C\<close> (dictionaries: their keys are
  distinct), \<^verbatim>\<open>merge_pk_maps\<close> is commutative and associative as an equation between the
  resulting dictionaries (\<open>map_of\<close> is the dictionary an association list stands for:
  Python's \<^verbatim>\<open>==\<close> on dictionaries does not look at the order of insertion), the empty map
  is its identity on both sides, the result is a dictionary again, its keys are the keys
  of either argument, and under each of them it holds the union of the key sets and the
  union of the field-name sets.
\<close>

theorem merge_pk_maps_algebra:
  assumes A: "distinct (keys A)" and B: "distinct (keys B)" and C: "distinct (keys C)"
  shows "map_of (merge_pk_maps A B) = map_of (merge_pk_maps B A) \<and>
         map_of (merge_pk_maps (merge_pk_maps A B) C) =
           map_of (merge_pk_maps A (merge_pk_maps B C)) \<and>
         merge_pk_maps A [] = A \<and> merge_pk_maps [] A = A \<and>
         distinct (keys (merge_pk_maps A B)) \<and>
         set (keys (merge_pk_maps A B)) = set (keys A) \<union> set (keys B) \<and>
         (\<forall>m \<in> set (keys A) \<union> set (keys B).
            map_of (merge_pk_maps A B) m =
              Some (pks_of A m \<union> pks_of B m, fields_of A m \<union> fields_of B m))"
proof -
  have comm: "map_of (merge_pk_maps A B) = map_of (merge_pk_maps B A)"
    by (rule map_of_eqI)
      (auto simp: set_keys_merge_pk_maps sets_of_merge_pk_maps A B)
  have BC: "distinct (keys (merge_pk_maps B C))"
    by (rule distinct_merge_pk_maps [OF B])
  have assoc: "map_of (merge_pk_maps (merge_pk_maps A B) C) =
      map_of (merge_pk_maps A (merge_pk_maps B C))"
    by (rule map_of_eqI)
      (auto simp: set_keys_merge_pk_maps sets_of_merge_pk_maps B C BC)
  have right: "merge_pk_maps A [] = A"
    by (simp add: merge_pk_maps_def)
  have left: "merge_pk_maps [] A = A"
    using foldl_merge_step_fresh [of "[]" A] A by (simp add: merge_pk_maps_def)
  have union: "\<forall>m \<in> set (keys A) \<union> set (keys B).
      map_of (merge_pk_maps A B) m =
        Some (pks_of A m \<union> pks_of B m, fields_of A m \<union> fields_of B m)"
  proof
    fix m assume "m \<in> set (keys A) \<union> set (keys B)"
    then have "m \<in> set (keys (merge_pk_maps A B))"
      by (simp add: set_keys_merge_pk_maps)
    then show "map_of (merge_pk_maps A B) m =
        Some (pks_of A m \<union> pks_of B m, fields_of A m \<union> fields_of B m)"
      by (simp add: map_of_present sets_of_merge_pk_maps B)
  qed
  from comm assoc right left union distinct_merge_pk_maps [OF A, of B]
    set_keys_merge_pk_maps [of A B]
  show ?thesis by blast
qed

text \<open>
  The two orders of merging \<^verbatim>\<open>{Foo: [{1}, {a}]}\<close> and \<^verbatim>\<open>{Bar: [{2}, {b}], Foo: [{3}, {c}]}\<close>
  give the same dictionary, with the keys inserted in different orders.
\<close>

theorem merge_pk_maps_algebra_witness:
  "map_of (merge_pk_maps [(''Foo'', ({1::int}, {''a''}))]
       [(''Bar'', ({2}, {''b''})), (''Foo'', ({3}, {''c''}))]) =
   map_of (merge_pk_maps [(''Bar'', ({2}, {''b''})), (''Foo'', ({3}, {''c''}))]
       [(''Foo'', ({1::int}, {''a''}))]) \<and>
   merge_pk_maps [(''Foo'', ({1::int}, {''a''}))]
       [(''Bar'', ({2}, {''b''})), (''Foo'', ({3}, {''c''}))] =
     [(''Foo'', ({1, 3}, {''a'', ''c''})), (''Bar'', ({2}, {''b''}))] \<and>
   merge_pk_maps [(''Bar'', ({2}, {''b''})), (''Foo'', ({3}, {''c''}))]
       [(''Foo'', ({1::int}, {''a''}))] =
     [(''Bar'', ({2}, {''b''})), (''Foo'', ({1, 3}, {''a'', ''c''}))]"
proof -
  have d1: "distinct (keys [(''Foo'', ({1::int}, {''a''}))])"
    by (simp add: keys_def)
  have d2: "distinct (keys [(''Bar'', ({2::int}, {''b''})), (''Foo'', ({3}, {''c''}))])"
    by (simp add: keys_def)
  have e1: "merge_pk_maps [(''Foo'', ({1::int}, {''a''}))]
       [(''Bar'', ({2}, {''b''})), (''Foo'', ({3}, {''c''}))] =
     [(''Foo'', ({1, 3}, {''a'', ''c''})), (''Bar'', ({2}, {''b''}))]"
    by (auto simp add: merge_pk_maps_def merge_step.simps)
  have e2: "merge_pk_maps [(''Bar'', ({2}, {''b''})), (''Foo'', ({3}, {''c''}))]
       [(''Foo'', ({1::int}, {''a''}))] =
     [(''Bar'', ({2}, {''b''})), (''Foo'', ({1, 3}, {''a'', ''c''}))]"
    by (auto simp add: merge_pk_maps_def merge_step.simps)
  from merge_pk_maps_algebra [OF d1 d2 d1] have
    "map_of (merge_pk_maps [(''Foo'', ({1::int}, {''a''}))]
       [(''Bar'', ({2}, {''b''})), (''Foo'', ({3}, {''c''}))]) =
     map_of (merge_pk_maps [(''Bar'', ({2}, {''b''})), (''Foo'', ({3}, {''c''}))]
       [(''Foo'', ({1::int}, {''a''}))])"
    by (rule conjunct1)
  with e1 e2 show ?thesis by simp
qed

text \<open>
  Claim C9.  A dependent-update map in which every model is a key at most once stays so
  under a merge, and the merge only grows it: every key stays a key, and the key set and
  the field-name set under every model include what they held before.
\<close>

theorem merge_pk_maps_grows:
  "distinct (keys mm1) \<Longrightarrow>
     distinct (keys (merge_pk_maps mm1 mm2)) \<and>
     set (keys mm1) \<subseteq> set (keys (merge_pk_maps mm1 mm2)) \<and>
     (\<forall>m. pks_of mm1 m \<subseteq> pks_of (merge_pk_maps mm1 mm2) m \<and>
          fields_of mm1 m \<subseteq> fields_of (merge_pk_maps mm1 mm2) m)"
  by (simp add: distinct_merge_pk_maps set_keys_merge_pk_maps merge_pk_maps_mono)

theorem merge_pk_maps_grows_witness:
  "distinct (keys (merge_pk_maps dependents [(''Bar'', ({5}, {''name''})), (''Baz'', ({7}, {}))])) \<and>
   {1, 2} \<subseteq> pks_of (merge_pk_maps dependents [(''Bar'', ({5}, {''name''})), (''Baz'', ({7}, {}))]) ''Bar'' \<and>
   merge_pk_maps dependents [(''Bar'', ({5}, {''name''})), (''Baz'', ({7}, {}))] =
     [(''Bar'', ({1, 2, 5}, {''klaus'', ''name''})), (''Baz'', ({7}, {}))]"
proof -
  have d: "distinct (keys dependents)"
    by (simp add: keys_def dependents_def)
  have p: "pks_of dependents ''Bar'' = {1, 2}"
    by (simp add: pks_of_def dependents_def)
  have e: "merge_pk_maps dependents [(''Bar'', ({5}, {''name''})), (''Baz'', ({7}, {}))] =
     [(''Bar'', ({1, 2, 5}, {''klaus'', ''name''})), (''Baz'', ({7}, {}))]"
    by (auto simp add: merge_pk_maps_def merge_step.simps dependents_def)
  from merge_pk_maps_grows [OF d, of "[(''Bar'', ({5}, {''name''})), (''Baz'', ({7}, {}))]"] p e
  show ?thesis by metis
qed

section \<open>The delete handlers: snapshot before, recomputation after\<close>

lemma bulk_update_calls: "bulk_update updates w = w\<lparr>calls := calls w @ bulk_calls updates\<rparr>"
  by (induction updates w rule: bulk_update.induct) (simp_all add: bulk_calls_def call_def)

lemma pop_eq: "pop d (key_of inst) [] = (pending d inst, d(key_of inst := None))"
  by (auto simp: pop_def pending_def split: option.splits)

lemma postdelete_handler_eq:
  "postdelete_handler rs sender inst w =
     w\<lparr>DELETES := (DELETES w)(key_of inst := None), calls := calls w @ bulk_calls (pending (DELETES w) inst)\<rparr>"
  by (simp add: postdelete_handler_def pop_eq bulk_update_calls)

lemma predelete_handler_eq:
  "predelete_handler rs sender inst w =
     w\<lparr>DELETES := store inst (querysets_for_update rs sender (Inst inst) None True) (DELETES w),
       calls := calls w @ [QuerysetsForUpdate sender (Inst inst) None True]\<rparr>"
  by (simp add: predelete_handler_def store_def call_def Let_def)

lemma pending_store:
  "data \<noteq> [] \<or> buffer (key_of inst) = None \<Longrightarrow> pending (store inst data buffer) inst = data"
  by (auto simp: pending_def store_def)

text \<open>
  Claim C1.  Let \<open>data\<close> be the full dependent-update map of the instance at the time of
  \<^verbatim>\<open>pre_delete\<close>: the value of \<^verbatim>\<open>_querysets_for_update(sender, instance, pk_list=True)\<close>,
  called without \<^verbatim>\<open>update_fields\<close>.  When \<open>data\<close> is not empty, or \<^verbatim>\<open>DELETES\<close> holds no
  earlier entry under the instance (under any instance equal to it), then
  \<^verbatim>\<open>predelete_handler\<close> makes that one query and leaves \<open>data\<close> as what \<^verbatim>\<open>DELETES\<close> yields
  under the instance (it is stored when it is not empty), and \<^verbatim>\<open>postdelete_handler\<close>, run
  for the instance or one equal to it, on any later state that still has this entry and
  with any answers of the resolver after the deletion, removes the entry and calls
  \<^verbatim>\<open>bulk_updater\<close> once per model of \<open>data\<close>, on exactly the keys and fields captured.
\<close>

theorem delete_snapshot_recomputed:
  assumes "querysets_for_update rs sender (Inst inst) None True \<noteq> [] \<or>
           DELETES w (key_of inst) = None"
  shows "predelete_handler rs sender inst w =
           w\<lparr>DELETES := store inst (querysets_for_update rs sender (Inst inst) None True) (DELETES w),
             calls := calls w @ [QuerysetsForUpdate sender (Inst inst) None True]\<rparr> \<and>
         pending (DELETES (predelete_handler rs sender inst w)) inst =
           querysets_for_update rs sender (Inst inst) None True \<and>
         (\<forall>w' rs' sender' inst'.
            key_of inst' = key_of inst \<and>
            DELETES w' (key_of inst) = DELETES (predelete_handler rs sender inst w) (key_of inst) \<longrightarrow>
            postdelete_handler rs' sender' inst' w' =
              w'\<lparr>DELETES := (DELETES w')(key_of inst := None),
                 calls := calls w' @
                   bulk_calls (querysets_for_update rs sender (Inst inst) None True)\<rparr>)"
proof -
  let ?data = "querysets_for_update rs sender (Inst inst) None True"
  let ?w1 = "predelete_handler rs sender inst w"
  have stored: "pending (DELETES ?w1) inst = ?data"
    using assms by (simp add: predelete_handler_eq pending_store)
  have post: "postdelete_handler rs' sender' inst' w' =
      w'\<lparr>DELETES := (DELETES w')(key_of inst := None), calls := calls w' @ bulk_calls ?data\<rparr>"
    if "key_of inst' = key_of inst \<and> DELETES w' (key_of inst) = DELETES ?w1 (key_of inst)"
    for w' rs' sender' inst'
  proof -
    from that stored have "pending (DELETES w') inst' = ?data"
      by (simp add: pending_def)
    with that show ?thesis by (simp add: postdelete_handler_eq)
  qed
  from stored post predelete_handler_eq [of rs sender inst w] show ?thesis by blast
qed

text \<open>
  The deletion of \<^verbatim>\<open>Foo\<close> 1, with the two dependents \<^verbatim>\<open>Bar\<close> 1 and 2 before it and none
  after it; \<^verbatim>\<open>post_delete\<close> is sent with an instance object whose flag differs.
\<close>

theorem delete_snapshot_recomputed_witness:
  "postdelete_handler (db [] [] visible_fields) ''Foo'' (foo1\<lparr>adding := True\<rparr>)
     (predelete_handler (db dependents [] visible_fields) ''Foo'' foo1 idle) =
   idle\<lparr>calls := [QuerysetsForUpdate ''Foo'' (Inst foo1) None True,
                   BulkUpdater (FilterPkIn ''Bar'' {1, 2}) {''klaus''}]\<rparr>"
proof -
  have q: "querysets_for_update (db dependents [] visible_fields) ''Foo'' (Inst foo1) None True =
      dependents"
    by (simp add: db_def)
  then have h: "querysets_for_update (db dependents [] visible_fields) ''Foo'' (Inst foo1) None True
        \<noteq> [] \<or> DELETES idle (key_of foo1) = None"
    by (simp add: dependents_def)
  have k: "key_of (foo1\<lparr>adding := True\<rparr>) = key_of foo1"
    by (simp add: key_of_def)
  let ?w1 = "predelete_handler (db dependents [] visible_fields) ''Foo'' foo1 idle"
  from delete_snapshot_recomputed [OF h]
  have pre: "?w1 = idle\<lparr>DELETES := store foo1 dependents (DELETES idle),
        calls := calls idle @ [QuerysetsForUpdate ''Foo'' (Inst foo1) None True]\<rparr>"
    and post: "\<forall>w' rs' sender' inst'.
        key_of inst' = key_of foo1 \<and> DELETES w' (key_of foo1) = DELETES ?w1 (key_of foo1) \<longrightarrow>
        postdelete_handler rs' sender' inst' w' =
          w'\<lparr>DELETES := (DELETES w')(key_of foo1 := None),
             calls := calls w' @ bulk_calls dependents\<rparr>"
    unfolding q by blast+
  from post k
  have "postdelete_handler (db [] [] visible_fields) ''Foo'' (foo1\<lparr>adding := True\<rparr>) ?w1 =
      ?w1\<lparr>DELETES := (DELETES ?w1)(key_of foo1 := None),
          calls := calls ?w1 @ bulk_calls dependents\<rparr>"
    by blast
  then show ?thesis
    unfolding pre by (simp add: store_def idle_def bulk_calls_def dependents_def)
qed

text \<open>
  An instance without dependents whose deletion finds an earlier entry, left under an
  equal instance object by a deletion whose \<^verbatim>\<open>post_delete\<close> never ran: nothing is stored,
  the earlier entry stays, and \<^verbatim>\<open>postdelete_handler\<close> recomputes the records of that entry,
  none of which the snapshot of this deletion holds.
\<close>

theorem delete_stale_entry_recomputed:
  "querysets_for_update (db [] [] visible_fields) ''Foo'' (Inst foo1) None True = [] \<and>
   DELETES (predelete_handler (db [] [] visible_fields) ''Foo'' foo1
      (idle\<lparr>DELETES := [key_of (foo1\<lparr>adding := True\<rparr>) \<mapsto> stale]\<rparr>)) (key_of foo1) = Some stale \<and>
   calls (postdelete_handler (db [] [] visible_fields) ''Foo'' foo1
     (predelete_handler (db [] [] visible_fields) ''Foo'' foo1
        (idle\<lparr>DELETES := [key_of (foo1\<lparr>adding := True\<rparr>) \<mapsto> stale]\<rparr>))) =
     [QuerysetsForUpdate ''Foo'' (Inst foo1) None True,
      BulkUpdater (FilterPkIn ''Baz'' {7}) {''total''}]"
  by (simp add: predelete_handler_def postdelete_handler_def pop_def call_def db_def idle_def
      stale_def key_of_def)

section \<open>The save handlers\<close>

text \<open>
  Claim C2.  The two phases that carry the marker \<^verbatim>\<open>raw\<close>, \<^verbatim>\<open>pre_save\<close> and \<^verbatim>\<open>post_save\<close>,
  do nothing when it is set: no buffer changes and no call into the resolver is made.
\<close>

theorem raw_is_noop:
  "kw_raw kwargs \<Longrightarrow>
     get_old_handler rs sender inst kwargs w = w \<and> postsave_handler rs sender inst kwargs w = w"
  by (simp add: get_old_handler_def postsave_handler_def)

theorem raw_is_noop_witness:
  "get_old_handler (db dependents [] visible_fields) ''Bar'' bar2
     \<lparr>kw_raw = True, kw_update_fields = None\<rparr> (idle\<lparr>UPDATE_OLD := [key_of bar2 \<mapsto> stale]\<rparr>) =
     idle\<lparr>UPDATE_OLD := [key_of bar2 \<mapsto> stale]\<rparr> \<and>
   postsave_handler (db dependents [] visible_fields) ''Bar'' bar2
     \<lparr>kw_raw = True, kw_update_fields = None\<rparr> (idle\<lparr>UPDATE_OLD := [key_of bar2 \<mapsto> stale]\<rparr>) =
     idle\<lparr>UPDATE_OLD := [key_of bar2 \<mapsto> stale]\<rparr>"
proof -
  have h: "kw_raw \<lparr>kw_raw = True, kw_update_fields = None\<rparr>" by simp
  from raw_is_noop [OF h] show ?thesis by blast
qed

text \<open>
  Claim C3.  On a \<^verbatim>\<open>pre_save\<close> event (whose \<^verbatim>\<open>update_fields\<close> is \<open>None\<close> or a non-empty set:
  \<^verbatim>\<open>Model.save\<close> returns before the signal when the set is empty), \<^verbatim>\<open>get_old_handler\<close>
  returns with the state unchanged, so without a buffer entry and before any query, when
  the instance is new, or its model has no contributing foreign keys, or \<^verbatim>\<open>update_fields\<close>
  is known and has no contributing foreign key in it.  Only otherwise, on an event that is
  not raw, it makes the one query \<^verbatim>\<open>preupdate_dependent(instance, sender)\<close> for the
  old-relation dependents and stores the snapshot under the instance in \<^verbatim>\<open>UPDATE_OLD\<close>
  (an empty snapshot is skipped).
\<close>

theorem get_old_handler_cases:
  assumes "kw_update_fields kwargs \<noteq> Some {}"
  shows
   "(adding inst \<or> fk_map rs sender = None \<or> fk_map rs sender = Some {} \<or>
       (\<exists>fks update_fields. fk_map rs sender = Some fks \<and>
          kw_update_fields kwargs = Some update_fields \<and> fks \<inter> update_fields = {})
      \<longrightarrow> get_old_handler rs sender inst kwargs w = w) \<and>
    (\<forall>fks. \<not> kw_raw kwargs \<and> \<not> adding inst \<and> fk_map rs sender = Some fks \<and> fks \<noteq> {} \<and>
       (kw_update_fields kwargs = None \<or>
        (\<exists>update_fields. kw_update_fields kwargs = Some update_fields \<and>
           fks \<inter> update_fields \<noteq> {}))
      \<longrightarrow> get_old_handler rs sender inst kwargs w =
           w\<lparr>UPDATE_OLD := store inst (preupdate_dependent rs inst sender) (UPDATE_OLD w),
             calls := calls w @ [PreupdateDependent inst sender]\<rparr> \<and>
          (preupdate_dependent rs inst sender \<noteq> [] \<longrightarrow>
             UPDATE_OLD (get_old_handler rs sender inst kwargs w) (key_of inst) =
               Some (preupdate_dependent rs inst sender)))"
  using assms
  by (auto simp: get_old_handler_def store_def call_def Let_def split: option.splits)

text \<open>
  A save of \<^verbatim>\<open>Bar\<close> 2, whose contributing foreign key is \<^verbatim>\<open>foo\<close>: with
  \<^verbatim>\<open>update_fields={'name'}\<close> nothing happens, with \<^verbatim>\<open>update_fields={'foo', 'name'}\<close> the
  dependents are queried and stored.
\<close>

theorem get_old_handler_cases_witness:
  "get_old_handler (db dependents [] visible_fields) ''Bar'' bar2
     \<lparr>kw_raw = False, kw_update_fields = Some {''name''}\<rparr> idle = idle \<and>
   get_old_handler (db dependents [] visible_fields) ''Bar'' bar2
     \<lparr>kw_raw = False, kw_update_fields = Some {''foo'', ''name''}\<rparr> idle =
     idle\<lparr>UPDATE_OLD := [key_of bar2 \<mapsto> dependents], calls := [PreupdateDependent bar2 ''Bar'']\<rparr>"
proof -
  have fks: "fk_map (db dependents [] visible_fields) ''Bar'' = Some {''foo''}"
    by (simp add: db_def)
  have pre: "preupdate_dependent (db dependents [] visible_fields) bar2 ''Bar'' = dependents"
    by (simp add: db_def)
  have live: "\<not> adding bar2" by (simp add: bar2_def)
  have h1: "kw_update_fields \<lparr>kw_raw = False, kw_update_fields = Some {''name''}\<rparr> \<noteq> Some {}"
    by simp
  have h2: "kw_update_fields \<lparr>kw_raw = False, kw_update_fields = Some {''foo'', ''name''}\<rparr> \<noteq> Some {}"
    by simp
  from fks get_old_handler_cases [OF h1, of bar2 "db dependents [] visible_fields" "''Bar''" idle]
  have skip: "get_old_handler (db dependents [] visible_fields) ''Bar'' bar2
     \<lparr>kw_raw = False, kw_update_fields = Some {''name''}\<rparr> idle = idle"
    by simp
  from fks live get_old_handler_cases [OF h2, of bar2 "db dependents [] visible_fields" "''Bar''" idle]
  have "get_old_handler (db dependents [] visible_fields) ''Bar'' bar2
     \<lparr>kw_raw = False, kw_update_fields = Some {''foo'', ''name''}\<rparr> idle =
     idle\<lparr>UPDATE_OLD := store bar2 dependents (UPDATE_OLD idle),
       calls := calls idle @ [PreupdateDependent bar2 ''Bar'']\<rparr>"
    by (simp add: pre)
  with skip show ?thesis
    by (simp add: store_def idle_def dependents_def)
qed

section \<open>The post handlers and their buffer entries\<close>

lemma postsave_handler_eq:
  "\<not> kw_raw kwargs \<Longrightarrow> postsave_handler rs sender inst kwargs w =
     w\<lparr>UPDATE_OLD := (UPDATE_OLD w)(key_of inst := None),
       calls := calls w @ [UpdateDependent (Inst inst) (Some sender) (kw_update_fields kwargs)
         (Some (pending (UPDATE_OLD w) inst))]\<rparr>"
  by (simp add: postsave_handler_def pop_eq call_def)

lemma m2m_post_remove_eq:
  "kw_action kwargs = post_remove \<Longrightarrow> m2m_handler rs sender inst kwargs w =
     (Returned, w\<lparr>M2M_REMOVE := (M2M_REMOVE w)(key_of inst := None),
        calls := calls w @ bulk_calls (pending (M2M_REMOVE w) inst)\<rparr>)"
  by (simp add: m2m_handler_def pop_eq bulk_update_calls)

lemma m2m_post_clear_eq:
  "kw_action kwargs = post_clear \<Longrightarrow> m2m_handler rs sender inst kwargs w =
     (Returned, w\<lparr>M2M_CLEAR := (M2M_CLEAR w)(key_of inst := None),
        calls := calls w @ bulk_calls (pending (M2M_CLEAR w) inst)\<rparr>)"
  by (simp add: m2m_handler_def pop_eq bulk_update_calls)

text \<open>
  Claim C8.  \<^verbatim>\<open>postdelete_handler\<close>, the \<^verbatim>\<open>post_remove\<close> and \<^verbatim>\<open>post_clear\<close> branches of
  \<^verbatim>\<open>m2m_handler\<close>, and \<^verbatim>\<open>postsave_handler\<close> on an event that is not raw, work on what their
  buffer yields under the instance, which is the empty map when there is no entry (then
  no \<^verbatim>\<open>bulk_updater\<close> call is made, and \<^verbatim>\<open>update_dependent\<close> gets the empty \<^verbatim>\<open>old\<close>), and
  leave the buffer without an entry under the instance.  The entry under the instance is
  the entry under any instance object equal to it (same class and primary key).
\<close>

theorem post_phase_pops:
  "(\<not> kw_raw kwargs \<longrightarrow>
      postsave_handler rs sender inst kwargs w =
        w\<lparr>UPDATE_OLD := (UPDATE_OLD w)(key_of inst := None),
          calls := calls w @ [UpdateDependent (Inst inst) (Some sender) (kw_update_fields kwargs)
            (Some (pending (UPDATE_OLD w) inst))]\<rparr>) \<and>
   postdelete_handler rs sender inst w =
     w\<lparr>DELETES := (DELETES w)(key_of inst := None),
       calls := calls w @ bulk_calls (pending (DELETES w) inst)\<rparr> \<and>
   (kw_action m2m = post_remove \<longrightarrow>
      m2m_handler rs sender inst m2m w =
        (Returned, w\<lparr>M2M_REMOVE := (M2M_REMOVE w)(key_of inst := None),
           calls := calls w @ bulk_calls (pending (M2M_REMOVE w) inst)\<rparr>)) \<and>
   (kw_action m2m = post_clear \<longrightarrow>
      m2m_handler rs sender inst m2m w =
        (Returned, w\<lparr>M2M_CLEAR := (M2M_CLEAR w)(key_of inst := None),
           calls := calls w @ bulk_calls (pending (M2M_CLEAR w) inst)\<rparr>)) \<and>
   (\<forall>buffer. buffer (key_of inst) = None \<longrightarrow>
      pending buffer inst = [] \<and> bulk_calls (pending buffer inst) = []) \<and>
   (\<forall>buffer inst'. key_of inst' = key_of inst \<longrightarrow>
      pending buffer inst' = pending buffer inst \<and>
      buffer(key_of inst' := None) = buffer(key_of inst := None))"
  by (simp add: postsave_handler_eq postdelete_handler_eq m2m_post_remove_eq m2m_post_clear_eq)
     (simp add: pending_def bulk_calls_def)

theorem post_phase_pops_witness:
  "postsave_handler (db [] [] visible_fields) ''Bar'' bar2
     \<lparr>kw_raw = False, kw_update_fields = None\<rparr> (idle\<lparr>UPDATE_OLD := [key_of bar2 \<mapsto> stale]\<rparr>) =
     idle\<lparr>calls := [UpdateDependent (Inst bar2) (Some ''Bar'') None (Some stale)]\<rparr> \<and>
   postsave_handler (db [] [] visible_fields) ''Bar'' bar2
     \<lparr>kw_raw = False, kw_update_fields = None\<rparr> idle =
     idle\<lparr>calls := [UpdateDependent (Inst bar2) (Some ''Bar'') None (Some [])]\<rparr> \<and>
   m2m_handler (db [] [] visible_fields) ''Foo_bars'' foo1
     \<lparr>kw_action = post_clear, kw_model = ''Bar'', kw_pk_set = {}, kw_reverse = False\<rparr> idle =
     (Returned, idle) \<and>
   postdelete_handler (db [] [] visible_fields) ''Foo'' (foo1\<lparr>adding := True\<rparr>)
     (idle\<lparr>DELETES := [key_of foo1 \<mapsto> stale]\<rparr>) =
     idle\<lparr>calls := [BulkUpdater (FilterPkIn ''Baz'' {7}) {''total''}]\<rparr>"
proof -
  have h: "\<not> kw_raw \<lparr>kw_raw = False, kw_update_fields = None\<rparr>" by simp
  have a: "kw_action \<lparr>kw_action = post_clear, kw_model = ''Bar'', kw_pk_set = {},
      kw_reverse = False\<rparr> = post_clear" by simp
  have p1: "pending [key_of bar2 \<mapsto> stale] bar2 = stale" by (simp add: pending_def)
  have p2: "pending Map.empty x = []" for x by (simp add: pending_def)
  from h post_phase_pops [of "\<lparr>kw_raw = False, kw_update_fields = None\<rparr>"
      "db [] [] visible_fields" "''Bar''" bar2 "idle\<lparr>UPDATE_OLD := [key_of bar2 \<mapsto> stale]\<rparr>"]
  have one: "postsave_handler (db [] [] visible_fields) ''Bar'' bar2
     \<lparr>kw_raw = False, kw_update_fields = None\<rparr> (idle\<lparr>UPDATE_OLD := [key_of bar2 \<mapsto> stale]\<rparr>) =
     idle\<lparr>calls := [UpdateDependent (Inst bar2) (Some ''Bar'') None (Some stale)]\<rparr>"
    by (simp add: p1) (simp add: idle_def)
  from h post_phase_pops [of "\<lparr>kw_raw = False, kw_update_fields = None\<rparr>"
      "db [] [] visible_fields" "''Bar''" bar2 idle]
  have two: "postsave_handler (db [] [] visible_fields) ''Bar'' bar2
     \<lparr>kw_raw = False, kw_update_fields = None\<rparr> idle =
     idle\<lparr>calls := [UpdateDependent (Inst bar2) (Some ''Bar'') None (Some [])]\<rparr>"
    by (simp add: idle_def p2)
  from a post_phase_pops [of _ "db [] [] visible_fields" "''Foo_bars''" foo1 idle
      "\<lparr>kw_action = post_clear, kw_model = ''Bar'', kw_pk_set = {}, kw_reverse = False\<rparr>"]
  have three: "m2m_handler (db [] [] visible_fields) ''Foo_bars'' foo1
     \<lparr>kw_action = post_clear, kw_model = ''Bar'', kw_pk_set = {}, kw_reverse = False\<rparr> idle =
     (Returned, idle)"
    by (simp add: idle_def p2 bulk_calls_def)
  have k: "key_of (foo1\<lparr>adding := True\<rparr>) = key_of foo1"
    by (simp add: key_of_def)
  have p3: "pending [key_of foo1 \<mapsto> stale] (foo1\<lparr>adding := True\<rparr>) = stale"
    by (simp add: pending_def k)
  from post_phase_pops [of _ "db [] [] visible_fields" "''Foo''" "foo1\<lparr>adding := True\<rparr>"
      "idle\<lparr>DELETES := [key_of foo1 \<mapsto> stale]\<rparr>"]
  have four: "postdelete_handler (db [] [] visible_fields) ''Foo'' (foo1\<lparr>adding := True\<rparr>)
     (idle\<lparr>DELETES := [key_of foo1 \<mapsto> stale]\<rparr>) =
     idle\<lparr>calls := [BulkUpdater (FilterPkIn ''Baz'' {7}) {''total''}]\<rparr>"
    by (simp add: p3 k) (simp add: idle_def bulk_calls_def stale_def)
  from one two three four show ?thesis by simp
qed

text \<open>
  \<^verbatim>\<open>postsave_handler\<close> on a raw event does not pop: an entry under the instance stays in
  \<^verbatim>\<open>UPDATE_OLD\<close>.
\<close>

theorem raw_postsave_keeps_entry:
  "UPDATE_OLD (postsave_handler (db [] [] visible_fields) ''Bar'' bar2
     \<lparr>kw_raw = True, kw_update_fields = None\<rparr> (idle\<lparr>UPDATE_OLD := [key_of bar2 \<mapsto> stale]\<rparr>)) (key_of bar2) =
   Some stale"
  by (simp add: postsave_handler_def)

section \<open>The many-to-many handler\<close>

lemma find_filter: "find P (filter Q xs) = find (\<lambda>x. Q x \<and> P x) xs"
  by (induction xs) auto

lemma update_first_match_eq:
  "update_first_match sender tgt (filter many_to_many fs) w =
     w\<lparr>calls := calls w @
        (case find (\<lambda>f. many_to_many f \<and> junction f = Some sender) fs of
           None \<Rightarrow> []
         | Some f \<Rightarrow> [UpdateDependent tgt None (Some {name f}) None])\<rparr>"
  by (simp add: update_first_match_def find_filter call_def split: option.splits)

lemma merge_other_eq: "merge_other data other = merge_pk_maps data other"
  by (simp add: merge_other_def merge_pk_maps_def)

text \<open>
  Claim C6.  On \<^verbatim>\<open>post_add\<close> the handler reads no buffer and makes no dependents query.  It
  scans the many-to-many members of the instance's model and of the target model for the
  first one whose junction is the sender, and for each model on which one is found it
  makes one call of \<^verbatim>\<open>update_dependent\<close> with that one field name: for the instance, and
  for the queryset of the target model filtered by the added keys.  When both models have
  such a member these are exactly two calls, in this order; the buffers stay as they are.
\<close>

theorem post_add_narrow_updates:
  "kw_action kwargs = post_add \<Longrightarrow>
     m2m_handler rs sender inst kwargs w =
       (Returned, w\<lparr>calls := calls w @
          (case find (\<lambda>f. many_to_many f \<and> junction f = Some sender)
                  (get_fields rs (inst_type inst)) of
             None \<Rightarrow> []
           | Some f \<Rightarrow> [UpdateDependent (Inst inst) None (Some {name f}) None]) @
          (case find (\<lambda>f. many_to_many f \<and> junction f = Some sender)
                  (get_fields rs (kw_model kwargs)) of
             None \<Rightarrow> []
           | Some f \<Rightarrow>
               [UpdateDependent (QS (FilterPkIn (kw_model kwargs) (kw_pk_set kwargs))) None
                  (Some {name f}) None])\<rparr>) \<and>
     (\<forall>f1 f2.
        find (\<lambda>f. many_to_many f \<and> junction f = Some sender) (get_fields rs (inst_type inst))
          = Some f1 \<and>
        find (\<lambda>f. many_to_many f \<and> junction f = Some sender) (get_fields rs (kw_model kwargs))
          = Some f2 \<longrightarrow>
        m2m_handler rs sender inst kwargs w =
          (Returned, w\<lparr>calls := calls w @
             [UpdateDependent (Inst inst) None (Some {name f1}) None,
              UpdateDependent (QS (FilterPkIn (kw_model kwargs) (kw_pk_set kwargs))) None
                (Some {name f2}) None]\<rparr>))"
  by (simp add: m2m_handler_def update_first_match_eq Let_def)

theorem post_add_narrow_updates_witness:
  "m2m_handler (db dependents stale visible_fields) ''Foo_bars'' foo1
     \<lparr>kw_action = post_add, kw_model = ''Bar'', kw_pk_set = {2}, kw_reverse = False\<rparr>
     (idle\<lparr>M2M_REMOVE := [key_of foo1 \<mapsto> stale]\<rparr>) =
   (Returned, idle\<lparr>M2M_REMOVE := [key_of foo1 \<mapsto> stale],
      calls := [UpdateDependent (Inst foo1) None (Some {''bars''}) None,
                UpdateDependent (QS (FilterPkIn ''Bar'' {2})) None (Some {''foos''}) None]\<rparr>)"
proof -
  let ?kw = "\<lparr>kw_action = post_add, kw_model = ''Bar'', kw_pk_set = {2}, kw_reverse = False\<rparr>"
  have a: "kw_action ?kw = post_add" by simp
  have f1: "find (\<lambda>f. many_to_many f \<and> junction f = Some ''Foo_bars'')
      (get_fields (db dependents stale visible_fields) (inst_type foo1)) =
      Some (ManyToManyField ''bars'' ''Foo_bars'')"
    by (simp add: db_def visible_fields_def foo1_def)
  have f2: "find (\<lambda>f. many_to_many f \<and> junction f = Some ''Foo_bars'')
      (get_fields (db dependents stale visible_fields) (kw_model ?kw)) =
      Some (ManyToManyRel ''foos'' ''Foo_bars'' ''bars'')"
    by (simp add: db_def visible_fields_def)
  from post_add_narrow_updates [OF a, of "db dependents stale visible_fields" "''Foo_bars''" foo1
      "idle\<lparr>M2M_REMOVE := [key_of foo1 \<mapsto> stale]\<rparr>"] f1 f2
  have "m2m_handler (db dependents stale visible_fields) ''Foo_bars'' foo1 ?kw
      (idle\<lparr>M2M_REMOVE := [key_of foo1 \<mapsto> stale]\<rparr>) =
    (Returned, idle\<lparr>M2M_REMOVE := [key_of foo1 \<mapsto> stale],
       calls := calls (idle\<lparr>M2M_REMOVE := [key_of foo1 \<mapsto> stale]\<rparr>) @
         [UpdateDependent (Inst foo1) None (Some {name (ManyToManyField ''bars'' ''Foo_bars'')}) None,
          UpdateDependent (QS (FilterPkIn (kw_model ?kw) (kw_pk_set ?kw))) None
            (Some {name (ManyToManyRel ''foos'' ''Foo_bars'' ''bars'')}) None]\<rparr>)"
    by blast
  then show ?thesis by (simp add: idle_def)
qed

text \<open>
  With a hidden reverse relation the target model has no member for the junction, and
  \<^verbatim>\<open>post_add\<close> makes one call, not two.
\<close>

theorem post_add_single_update:
  "m2m_handler (db dependents stale hidden_fields) ''Foo_bars'' foo1
     \<lparr>kw_action = post_add, kw_model = ''Bar'', kw_pk_set = {2}, kw_reverse = False\<rparr> idle =
   (Returned, idle\<lparr>calls := [UpdateDependent (Inst foo1) None (Some {''bars''}) None]\<rparr>)"
  by (simp add: m2m_handler_def update_first_match_def call_def db_def hidden_fields_def
      foo1_def idle_def Let_def)

lemma find_no_match:
  "\<forall>f \<in> set fs. many_to_many f \<longrightarrow> junction f \<noteq> Some sender \<Longrightarrow>
     find (\<lambda>f. many_to_many f \<and> junction f = Some sender) fs = None"
  by (simp add: find_None_iff)

lemma filter_no_match:
  "\<forall>f \<in> set fs. many_to_many f \<longrightarrow> junction f \<noteq> Some sender \<Longrightarrow>
     filter (is_rel_through sender) fs = []"
proof (induction fs)
  case Nil
  show ?case by simp
next
  case (Cons f fs)
  then show ?case by (cases f) auto
qed

text \<open>
  Claim C5.  When no many-to-many member of either endpoint model has the sender as its
  junction, no action raises a configuration error: \<^verbatim>\<open>post_add\<close> (and \<^verbatim>\<open>pre_add\<close>) return
  with the state unchanged, \<^verbatim>\<open>pre_remove\<close>, \<^verbatim>\<open>post_remove\<close> and \<^verbatim>\<open>post_clear\<close> return
  normally, and \<^verbatim>\<open>pre_clear\<close> alone fails, with the \<^verbatim>\<open>IndexError\<close> of taking element 0 of
  the empty list of matches, after its first query and before anything is stored.
\<close>

theorem unmatched_junction_outcomes:
  assumes "\<forall>f \<in> set (get_fields rs (inst_type inst)) \<union> set (get_fields rs (kw_model kwargs)).
             many_to_many f \<longrightarrow> junction f \<noteq> Some sender"
  shows "(kw_action kwargs = post_add \<or> kw_action kwargs = pre_add \<longrightarrow>
            m2m_handler rs sender inst kwargs w = (Returned, w)) \<and>
         (kw_action kwargs = pre_remove \<or> kw_action kwargs = post_remove \<or>
          kw_action kwargs = post_clear \<longrightarrow>
            fst (m2m_handler rs sender inst kwargs w) = Returned) \<and>
         (kw_action kwargs = pre_clear \<longrightarrow>
            m2m_handler rs sender inst kwargs w =
              (Raised IndexError, call (QuerysetsForUpdate (inst_type inst) (Inst inst) None True) w))"
proof -
  from assms have
    n1: "\<forall>f \<in> set (get_fields rs (inst_type inst)). many_to_many f \<longrightarrow> junction f \<noteq> Some sender"
    and n2: "\<forall>f \<in> set (get_fields rs (kw_model kwargs)). many_to_many f \<longrightarrow> junction f \<noteq> Some sender"
    by auto
  have add: "m2m_handler rs sender inst kwargs w = (Returned, w)"
    if "kw_action kwargs = post_add \<or> kw_action kwargs = pre_add"
    using that
    by (auto simp: m2m_handler_def update_first_match_eq Let_def
        find_no_match [OF n1] find_no_match [OF n2])
  have rem: "fst (m2m_handler rs sender inst kwargs w) = Returned"
    if "kw_action kwargs = pre_remove \<or> kw_action kwargs = post_remove \<or>
        kw_action kwargs = post_clear"
    using that by (auto simp: m2m_handler_def Let_def split: prod.splits)
  have clear: "m2m_handler rs sender inst kwargs w =
      (Raised IndexError, call (QuerysetsForUpdate (inst_type inst) (Inst inst) None True) w)"
    if "kw_action kwargs = pre_clear"
    using that
    by (simp add: m2m_handler_def Let_def filter_no_match [OF n1] filter_no_match [OF n2])
  from add rem clear show ?thesis by blast
qed

theorem unmatched_junction_outcomes_witness:
  "m2m_handler (db dependents stale visible_fields) ''Other_through'' foo1
     \<lparr>kw_action = pre_clear, kw_model = ''Bar'', kw_pk_set = {}, kw_reverse = False\<rparr> idle =
   (Raised IndexError, idle\<lparr>calls := [QuerysetsForUpdate ''Foo'' (Inst foo1) None True]\<rparr>) \<and>
   fst (m2m_handler (db dependents stale visible_fields) ''Other_through'' foo1
     \<lparr>kw_action = pre_remove, kw_model = ''Bar'', kw_pk_set = {2}, kw_reverse = False\<rparr> idle) =
   Returned"
proof -
  have h: "\<forall>f \<in> set (get_fields (db dependents stale visible_fields) (inst_type foo1)) \<union>
        set (get_fields (db dependents stale visible_fields) (kw_model kw)).
      many_to_many f \<longrightarrow> junction f \<noteq> Some ''Other_through''"
    if "kw_model kw = ''Bar''" for kw :: m2m_kwargs
    using that by (simp add: db_def visible_fields_def foo1_def)
  have "m2m_handler (db dependents stale visible_fields) ''Other_through'' foo1
     \<lparr>kw_action = pre_clear, kw_model = ''Bar'', kw_pk_set = {}, kw_reverse = False\<rparr> idle =
   (Raised IndexError, call (QuerysetsForUpdate (inst_type foo1) (Inst foo1) None True) idle)"
    using unmatched_junction_outcomes [OF h, of
        "\<lparr>kw_action = pre_clear, kw_model = ''Bar'', kw_pk_set = {}, kw_reverse = False\<rparr>" idle]
    by simp
  moreover have "fst (m2m_handler (db dependents stale visible_fields) ''Other_through'' foo1
     \<lparr>kw_action = pre_remove, kw_model = ''Bar'', kw_pk_set = {2}, kw_reverse = False\<rparr> idle) =
     Returned"
    using unmatched_junction_outcomes [OF h, of
        "\<lparr>kw_action = pre_remove, kw_model = ''Bar'', kw_pk_set = {2}, kw_reverse = False\<rparr>" idle]
    by simp
  ultimately show ?thesis
    by (simp add: call_def idle_def foo1_def)
qed

text \<open>
  A junction that no member of \<^verbatim>\<open>Foo\<close> or \<^verbatim>\<open>Bar\<close> has: \<^verbatim>\<open>post_add\<close> returns and does
  nothing, \<^verbatim>\<open>pre_remove\<close> returns and stores its snapshot.
\<close>

theorem post_add_unmatched_silent:
  "find (\<lambda>f. many_to_many f \<and> junction f = Some ''Other_through'')
     (visible_fields ''Foo'' @ visible_fields ''Bar'') = None \<and>
   m2m_handler (db dependents stale visible_fields) ''Other_through'' foo1
     \<lparr>kw_action = post_add, kw_model = ''Bar'', kw_pk_set = {2}, kw_reverse = False\<rparr> idle =
   (Returned, idle) \<and>
   m2m_handler (db dependents stale visible_fields) ''Other_through'' foo1
     \<lparr>kw_action = pre_remove, kw_model = ''Bar'', kw_pk_set = {2}, kw_reverse = False\<rparr> idle =
   (Returned, idle\<lparr>M2M_REMOVE := [key_of foo1 \<mapsto> [(''Bar'', ({1, 2}, {''klaus''})), (''Baz'', ({7}, {''total''}))]],
      calls := [QuerysetsForUpdate ''Foo'' (Inst foo1) None True,
                QuerysetsForUpdate ''Bar'' (QS (FilterPkIn ''Bar'' {2})) None True]\<rparr>)"
  by (simp add: m2m_handler_def update_first_match_def call_def db_def visible_fields_def
      foo1_def idle_def merge_other_def merge_pk_maps_def merge_step.simps store_def
      dependents_def stale_def Let_def)

lemma m2m_pre_remove_eq:
  "kw_action kwargs = pre_remove \<Longrightarrow>
      m2m_handler rs sender inst kwargs w =
        (Returned,
         w\<lparr>M2M_REMOVE :=
             store inst
               (merge_pk_maps (querysets_for_update rs (inst_type inst) (Inst inst) None True)
                  (querysets_for_update rs (kw_model kwargs)
                     (QS (FilterPkIn (kw_model kwargs) (kw_pk_set kwargs))) None True))
               (M2M_REMOVE w),
           calls := calls w @
             [QuerysetsForUpdate (inst_type inst) (Inst inst) None True,
              QuerysetsForUpdate (kw_model kwargs)
                (QS (FilterPkIn (kw_model kwargs) (kw_pk_set kwargs))) None True]\<rparr>)"
  by (simp add: m2m_handler_def Let_def merge_other_eq call_def)

lemma m2m_pre_clear_reverse_eq:
  "kw_action kwargs = pre_clear \<and> kw_reverse kwargs \<and>
   filter (is_rel_through sender) (get_fields rs (inst_type inst)) = rel # rest \<and>
   name rel \<in> managers rs (inst_type inst) \<Longrightarrow>
     m2m_handler rs sender inst kwargs w =
        (Returned,
         w\<lparr>M2M_CLEAR :=
             store inst
               (merge_pk_maps (querysets_for_update rs (inst_type inst) (Inst inst) None True)
                  (querysets_for_update rs (kw_model kwargs) (QS (RelatedAll inst (name rel))) None True))
               (M2M_CLEAR w),
           calls := calls w @
             [QuerysetsForUpdate (inst_type inst) (Inst inst) None True,
              QuerysetsForUpdate (kw_model kwargs) (QS (RelatedAll inst (name rel))) None True]\<rparr>)"
  by (simp add: m2m_handler_def Let_def merge_other_eq call_def)

lemma m2m_pre_clear_forward_eq:
  "kw_action kwargs = pre_clear \<and> \<not> kw_reverse kwargs \<and>
   filter (is_rel_through sender) (get_fields rs (kw_model kwargs)) = field # rest \<and>
   remote_name field \<in> managers rs (inst_type inst) \<Longrightarrow>
     m2m_handler rs sender inst kwargs w =
        (Returned,
         w\<lparr>M2M_CLEAR :=
             store inst
               (merge_pk_maps (querysets_for_update rs (inst_type inst) (Inst inst) None True)
                  (querysets_for_update rs (kw_model kwargs)
                     (QS (RelatedAll inst (remote_name field))) None True))
               (M2M_CLEAR w),
           calls := calls w @
             [QuerysetsForUpdate (inst_type inst) (Inst inst) None True,
              QuerysetsForUpdate (kw_model kwargs) (QS (RelatedAll inst (remote_name field))) None True]\<rparr>)"
  by (simp add: m2m_handler_def Let_def merge_other_eq call_def)

text \<open>
  Claim C7.  \<^verbatim>\<open>pre_remove\<close>, and \<^verbatim>\<open>pre_clear\<close> when the scanned model (the instance's model
  for a reverse event, the target model otherwise) has a \<^verbatim>\<open>ManyToManyRel\<close> for the sender
  and the instance has a related manager under the name the handler reads from it
  (\<^verbatim>\<open>rel.name\<close> for a reverse event, \<^verbatim>\<open>field.remote_field.name\<close> otherwise), make two
  queries: the dependents of the instance, then the dependents of the other side (the
  target model filtered by the removed keys; for \<^verbatim>\<open>pre_clear\<close> the current value of the
  relation, \<^verbatim>\<open>getattr(instance, rel.name).all()\<close> for a reverse event and
  \<^verbatim>\<open>getattr(instance, field.remote_field.name).all()\<close> otherwise).  The two maps are merged
  by \<^verbatim>\<open>merge_pk_maps\<close>, and the merged map, when it is not empty, is stored as the one entry
  under the instance in \<^verbatim>\<open>M2M_REMOVE\<close> or \<^verbatim>\<open>M2M_CLEAR\<close>.  \<^verbatim>\<open>post_remove\<close> and \<^verbatim>\<open>post_clear\<close>
  pop what their buffer yields under the instance and call \<^verbatim>\<open>bulk_updater\<close> once per
  model of it.
\<close>

theorem m2m_remove_clear_snapshot:
  "(kw_action kwargs = pre_remove \<longrightarrow>
      m2m_handler rs sender inst kwargs w =
        (Returned,
         w\<lparr>M2M_REMOVE :=
             store inst
               (merge_pk_maps (querysets_for_update rs (inst_type inst) (Inst inst) None True)
                  (querysets_for_update rs (kw_model kwargs)
                     (QS (FilterPkIn (kw_model kwargs) (kw_pk_set kwargs))) None True))
               (M2M_REMOVE w),
           calls := calls w @
             [QuerysetsForUpdate (inst_type inst) (Inst inst) None True,
              QuerysetsForUpdate (kw_model kwargs)
                (QS (FilterPkIn (kw_model kwargs) (kw_pk_set kwargs))) None True]\<rparr>)) \<and>
   (\<forall>rel rest.
      kw_action kwargs = pre_clear \<and> kw_reverse kwargs \<and>
      filter (is_rel_through sender) (get_fields rs (inst_type inst)) = rel # rest \<and>
      name rel \<in> managers rs (inst_type inst) \<longrightarrow>
      m2m_handler rs sender inst kwargs w =
        (Returned,
         w\<lparr>M2M_CLEAR :=
             store inst
               (merge_pk_maps (querysets_for_update rs (inst_type inst) (Inst inst) None True)
                  (querysets_for_update rs (kw_model kwargs) (QS (RelatedAll inst (name rel))) None True))
               (M2M_CLEAR w),
           calls := calls w @
             [QuerysetsForUpdate (inst_type inst) (Inst inst) None True,
              QuerysetsForUpdate (kw_model kwargs) (QS (RelatedAll inst (name rel))) None True]\<rparr>)) \<and>
   (\<forall>field rest.
      kw_action kwargs = pre_clear \<and> \<not> kw_reverse kwargs \<and>
      filter (is_rel_through sender) (get_fields rs (kw_model kwargs)) = field # rest \<and>
      remote_name field \<in> managers rs (inst_type inst) \<longrightarrow>
      m2m_handler rs sender inst kwargs w =
        (Returned,
         w\<lparr>M2M_CLEAR :=
             store inst
               (merge_pk_maps (querysets_for_update rs (inst_type inst) (Inst inst) None True)
                  (querysets_for_update rs (kw_model kwargs)
                     (QS (RelatedAll inst (remote_name field))) None True))
               (M2M_CLEAR w),
           calls := calls w @
             [QuerysetsForUpdate (inst_type inst) (Inst inst) None True,
              QuerysetsForUpdate (kw_model kwargs) (QS (RelatedAll inst (remote_name field))) None True]\<rparr>)) \<and>
   (kw_action kwargs = post_remove \<longrightarrow>
      m2m_handler rs sender inst kwargs w =
        (Returned, w\<lparr>M2M_REMOVE := (M2M_REMOVE w)(key_of inst := None),
           calls := calls w @ bulk_calls (pending (M2M_REMOVE w) inst)\<rparr>)) \<and>
   (kw_action kwargs = post_clear \<longrightarrow>
      m2m_handler rs sender inst kwargs w =
        (Returned, w\<lparr>M2M_CLEAR := (M2M_CLEAR w)(key_of inst := None),
           calls := calls w @ bulk_calls (pending (M2M_CLEAR w) inst)\<rparr>)) \<and>
   (\<forall>data buffer inst'. key_of inst' = key_of inst \<and>
      (data \<noteq> [] \<or> buffer (key_of inst) = None) \<longrightarrow>
      store inst data buffer (key_of inst) = (if data = [] then None else Some data) \<and>
      pending (store inst data buffer) inst' = data)"
proof -
  have stored: "store inst data buffer (key_of inst) = (if data = [] then None else Some data) \<and>
      pending (store inst data buffer) inst' = data"
    if "key_of inst' = key_of inst \<and> (data \<noteq> [] \<or> buffer (key_of inst) = None)"
    for data buffer inst'
    using that by (auto simp: pending_def store_def)
  from m2m_pre_remove_eq [of kwargs rs sender inst w]
    m2m_pre_clear_reverse_eq [of kwargs sender rs inst _ _ w]
    m2m_pre_clear_forward_eq [of kwargs sender rs _ _ inst w]
    stored m2m_post_remove_eq [of kwargs rs sender inst w]
    m2m_post_clear_eq [of kwargs rs sender inst w]
  show ?thesis by blast
qed

text \<open>
  \<^verbatim>\<open>foo1.bars.remove(bar2)\<close> and \<^verbatim>\<open>foo1.bars.clear()\<close> with \<^verbatim>\<open>related_name='foos'\<close>, and the
  reverse \<^verbatim>\<open>bar2.foos.clear()\<close>.
\<close>

theorem m2m_remove_clear_snapshot_witness:
  "m2m_handler (db dependents stale visible_fields) ''Foo_bars'' foo1
     \<lparr>kw_action = pre_remove, kw_model = ''Bar'', kw_pk_set = {2}, kw_reverse = False\<rparr> idle =
   (Returned,
    idle\<lparr>M2M_REMOVE := [key_of foo1 \<mapsto> [(''Bar'', ({1, 2}, {''klaus''})), (''Baz'', ({7}, {''total''}))]],
      calls := [QuerysetsForUpdate ''Foo'' (Inst foo1) None True,
                QuerysetsForUpdate ''Bar'' (QS (FilterPkIn ''Bar'' {2})) None True]\<rparr>) \<and>
   m2m_handler (db [] [] visible_fields) ''Foo_bars'' foo1
     \<lparr>kw_action = post_remove, kw_model = ''Bar'', kw_pk_set = {2}, kw_reverse = False\<rparr>
     (idle\<lparr>M2M_REMOVE := [key_of foo1 \<mapsto> [(''Bar'', ({1, 2}, {''klaus''})), (''Baz'', ({7}, {''total''}))]]\<rparr>) =
   (Returned,
    idle\<lparr>calls := [BulkUpdater (FilterPkIn ''Bar'' {1, 2}) {''klaus''},
                   BulkUpdater (FilterPkIn ''Baz'' {7}) {''total''}]\<rparr>) \<and>
   m2m_handler (db dependents stale visible_fields) ''Foo_bars'' foo1
     \<lparr>kw_action = pre_clear, kw_model = ''Bar'', kw_pk_set = {}, kw_reverse = False\<rparr> idle =
   (Returned,
    idle\<lparr>M2M_CLEAR := [key_of foo1 \<mapsto> [(''Bar'', ({1, 2}, {''klaus''})), (''Baz'', ({7}, {''total''}))]],
      calls := [QuerysetsForUpdate ''Foo'' (Inst foo1) None True,
                QuerysetsForUpdate ''Bar'' (QS (RelatedAll foo1 ''bars'')) None True]\<rparr>) \<and>
   m2m_handler (db dependents stale visible_fields) ''Foo_bars'' bar2
     \<lparr>kw_action = pre_clear, kw_model = ''Foo'', kw_pk_set = {}, kw_reverse = True\<rparr> idle =
   (Returned,
    idle\<lparr>M2M_CLEAR := [key_of bar2 \<mapsto> [(''Bar'', ({1, 2}, {''klaus''})), (''Baz'', ({7}, {''total''}))]],
      calls := [QuerysetsForUpdate ''Bar'' (Inst bar2) None True,
                QuerysetsForUpdate ''Foo'' (QS (RelatedAll bar2 ''foos'')) None True]\<rparr>)"
proof -
  let ?merged = "[(''Bar'', ({1::int, 2}, {''klaus''})), (''Baz'', ({7}, {''total''}))]"
  let ?rs = "db dependents stale visible_fields"
  let ?pre = "\<lparr>kw_action = pre_remove, kw_model = ''Bar'', kw_pk_set = {2}, kw_reverse = False\<rparr>"
  let ?post = "\<lparr>kw_action = post_remove, kw_model = ''Bar'', kw_pk_set = {2}, kw_reverse = False\<rparr>"
  let ?clear = "\<lparr>kw_action = pre_clear, kw_model = ''Bar'', kw_pk_set = {}, kw_reverse = False\<rparr>"
  let ?rclear = "\<lparr>kw_action = pre_clear, kw_model = ''Foo'', kw_pk_set = {}, kw_reverse = True\<rparr>"
  have merged: "merge_pk_maps dependents stale = ?merged"
    by (simp add: merge_pk_maps_def merge_step.simps dependents_def stale_def)
  have q: "querysets_for_update ?rs m (Inst i) None True = dependents"
    "querysets_for_update ?rs m (QS qs) None True = stale" for m i qs
    by (simp_all add: db_def)
  have st: "store i ?merged Map.empty = [key_of i \<mapsto> ?merged]" for i
    by (simp add: store_def)
  have t: "inst_type foo1 = ''Foo''" "inst_type bar2 = ''Bar''"
    by (simp_all add: foo1_def bar2_def)
  have rel: "filter (is_rel_through ''Foo_bars'') (get_fields ?rs ''Bar'') =
      [ManyToManyRel ''foos'' ''Foo_bars'' ''bars'']"
    by (simp add: db_def visible_fields_def)
  have man: "''bars'' \<in> managers ?rs ''Foo''" "''foos'' \<in> managers ?rs ''Bar''"
    by (simp_all add: db_def)
  have one: "m2m_handler ?rs ''Foo_bars'' foo1 ?pre idle =
      (Returned, idle\<lparr>M2M_REMOVE := [key_of foo1 \<mapsto> ?merged],
        calls := [QuerysetsForUpdate ''Foo'' (Inst foo1) None True,
                  QuerysetsForUpdate ''Bar'' (QS (FilterPkIn ''Bar'' {2})) None True]\<rparr>)"
    using m2m_remove_clear_snapshot [of ?pre ?rs "''Foo_bars''" foo1 idle]
    by (simp add: q merged t) (simp add: idle_def st)
  have two: "m2m_handler (db [] [] visible_fields) ''Foo_bars'' foo1 ?post
      (idle\<lparr>M2M_REMOVE := [key_of foo1 \<mapsto> ?merged]\<rparr>) =
      (Returned, idle\<lparr>calls := [BulkUpdater (FilterPkIn ''Bar'' {1, 2}) {''klaus''},
                   BulkUpdater (FilterPkIn ''Baz'' {7}) {''total''}]\<rparr>)"
    using m2m_remove_clear_snapshot [of ?post "db [] [] visible_fields" "''Foo_bars''" foo1
        "idle\<lparr>M2M_REMOVE := [key_of foo1 \<mapsto> ?merged]\<rparr>"]
    by (simp add: pending_def bulk_calls_def) (simp add: idle_def)
  have three: "m2m_handler ?rs ''Foo_bars'' foo1 ?clear idle =
      (Returned, idle\<lparr>M2M_CLEAR := [key_of foo1 \<mapsto> ?merged],
        calls := [QuerysetsForUpdate ''Foo'' (Inst foo1) None True,
                  QuerysetsForUpdate ''Bar'' (QS (RelatedAll foo1 ''bars'')) None True]\<rparr>)"
    using m2m_remove_clear_snapshot [of ?clear ?rs "''Foo_bars''" foo1 idle] rel man
    by (simp add: q merged t) (simp add: idle_def st)
  have four: "m2m_handler ?rs ''Foo_bars'' bar2 ?rclear idle =
      (Returned, idle\<lparr>M2M_CLEAR := [key_of bar2 \<mapsto> ?merged],
        calls := [QuerysetsForUpdate ''Bar'' (Inst bar2) None True,
                  QuerysetsForUpdate ''Foo'' (QS (RelatedAll bar2 ''foos'')) None True]\<rparr>)"
    using m2m_remove_clear_snapshot [of ?rclear ?rs "''Foo_bars''" bar2 idle] rel man
    by (simp add: q merged t) (simp add: idle_def st)
  from one two three four show ?thesis by simp
qed

text \<open>
  \<^verbatim>\<open>pre_remove\<close> with an empty merged map stores nothing, so that an earlier entry under
  the instance stays in \<^verbatim>\<open>M2M_REMOVE\<close> and is what \<^verbatim>\<open>post_remove\<close> recomputes; \<^verbatim>\<open>pre_clear\<close>
  on a relation whose reverse side is hidden fails with \<^verbatim>\<open>IndexError\<close> and stores nothing;
  and the reverse \<^verbatim>\<open>pre_clear\<close> on a relation declared without \<^verbatim>\<open>related_name\<close> reads
  \<^verbatim>\<open>getattr(instance, 'foo')\<close> where the manager is \<^verbatim>\<open>foo_set\<close>, fails with
  \<^verbatim>\<open>AttributeError\<close> and stores nothing.
\<close>

theorem pre_clear_not_stored:
  "m2m_handler (db [] [] visible_fields) ''Foo_bars'' foo1
     \<lparr>kw_action = pre_remove, kw_model = ''Bar'', kw_pk_set = {2}, kw_reverse = False\<rparr>
     (idle\<lparr>M2M_REMOVE := [key_of foo1 \<mapsto> stale]\<rparr>) =
   (Returned, idle\<lparr>M2M_REMOVE := [key_of foo1 \<mapsto> stale],
      calls := [QuerysetsForUpdate ''Foo'' (Inst foo1) None True,
                QuerysetsForUpdate ''Bar'' (QS (FilterPkIn ''Bar'' {2})) None True]\<rparr>) \<and>
   merge_pk_maps (querysets_for_update (db [] [] visible_fields) ''Foo'' (Inst foo1) None True)
     (querysets_for_update (db [] [] visible_fields) ''Bar'' (QS (FilterPkIn ''Bar'' {2})) None True) = [] \<and>
   m2m_handler (db dependents stale hidden_fields) ''Foo_bars'' foo1
     \<lparr>kw_action = pre_clear, kw_model = ''Bar'', kw_pk_set = {}, kw_reverse = False\<rparr> idle =
   (Raised IndexError, idle\<lparr>calls := [QuerysetsForUpdate ''Foo'' (Inst foo1) None True]\<rparr>) \<and>
   m2m_handler ((db dependents stale unnamed_fields)\<lparr>managers := unnamed_managers\<rparr>) ''Foo_bars'' bar2
     \<lparr>kw_action = pre_clear, kw_model = ''Foo'', kw_pk_set = {}, kw_reverse = True\<rparr> idle =
   (Raised AttributeError, idle\<lparr>calls := [QuerysetsForUpdate ''Bar'' (Inst bar2) None True]\<rparr>)"
  by (simp add: m2m_handler_def call_def db_def visible_fields_def hidden_fields_def
      unnamed_fields_def unnamed_managers_def foo1_def bar2_def idle_def merge_other_def
      merge_pk_maps_def store_def Let_def)

section \<open>The frame of \<^verbatim>\<open>merge_pk_maps\<close> on set objects\<close>

declare heap_merge_step.simps [simp del]

lemma refs_Nil: "refs [] = {}"
  by (simp add: refs_def)

lemma refs_Cons: "refs ((m, (a, b)) # mm) = {a, b} \<union> refs mm"
  by (simp add: refs_def)

lemma refs_setdefault: "refs (setdefault k (p, f) mm) \<subseteq> refs mm \<union> {p, f}"
proof (induction mm)
  case Nil
  show ?case by (simp add: refs_Nil refs_Cons)
next
  case (Cons e mm)
  obtain m a b where e: "e = (m, (a, b))" by (cases e) auto
  from Cons.IH show ?case by (auto simp: e refs_Cons)
qed

lemma map_of_refs: "map_of mm k = Some (a, b) \<Longrightarrow> a \<in> refs mm \<and> b \<in> refs mm"
  by (force simp: refs_def dest: map_of_SomeD)

lemma dom_set_update: "dom (sets (set_update a1 a2 h)) = dom (sets h)"
  by (auto simp: set_update_def split: option.splits)

lemma next_set_update: "next_addr (set_update a1 a2 h) = next_addr h"
  by (auto simp: set_update_def split: option.splits)

lemma sets_set_update_other: "a \<noteq> a1 \<Longrightarrow> sets (set_update a1 a2 h) a = sets h a"
  by (auto simp: set_update_def split: option.splits)

lemma separate_alloc:
  assumes inv: "separate R h0 mm0 (h, mm)"
  shows "separate R h0 mm0
           (h\<lparr>sets := (sets h)(next_addr h \<mapsto> {}, Suc (next_addr h) \<mapsto> {}),
              next_addr := Suc (Suc (next_addr h))\<rparr>,
            setdefault m (next_addr h, Suc (next_addr h)) mm)"
proof -
  let ?p = "next_addr h" and ?f = "Suc (next_addr h)"
  let ?h2 = "h\<lparr>sets := (sets h)(?p \<mapsto> {}, ?f \<mapsto> {}), next_addr := Suc (Suc (next_addr h))\<rparr>"
  let ?mm = "setdefault m (?p, ?f) mm"
  from inv have dom: "dom (sets h) \<subseteq> {..<next_addr h}" and mm: "refs mm \<subseteq> dom (sets h)"
    and R: "R \<subseteq> dom (sets h)" and disj: "refs mm \<inter> R = {}"
    and same: "\<forall>a \<in> R. sets h a = sets h0 a" and le: "next_addr h0 \<le> next_addr h"
    and sub: "refs mm \<subseteq> refs mm0 \<union> {next_addr h0..<next_addr h}"
    by (simp_all add: separate_def)
  from R dom have "R \<subseteq> {..<next_addr h}" by blast
  then have fresh: "?p \<notin> R" "?f \<notin> R" by auto
  have refs': "refs ?mm \<subseteq> refs mm \<union> {?p, ?f}" by (rule refs_setdefault)
  have disj': "refs ?mm \<inter> R = {}" using refs' disj fresh by auto
  have b1: "dom (sets ?h2) \<subseteq> {..<next_addr ?h2}"
    using dom by (auto simp: less_Suc_eq)
  have b2: "refs ?mm \<subseteq> dom (sets ?h2)"
    using refs' mm by auto
  have b3: "R \<subseteq> dom (sets ?h2)"
    using R by auto
  have b4: "\<forall>a \<in> R. sets ?h2 a = sets h0 a"
    using same fresh by auto
  have b5: "next_addr h0 \<le> next_addr ?h2"
    using le by simp
  have "{?p, ?f} \<subseteq> {next_addr h0..<next_addr ?h2}"
    using le by auto
  moreover have "{next_addr h0..<next_addr h} \<subseteq> {next_addr h0..<next_addr ?h2}"
    by auto
  ultimately have b6: "refs ?mm \<subseteq> refs mm0 \<union> {next_addr h0..<next_addr ?h2}"
    using refs' sub by blast
  from b1 b2 b3 disj' b4 b5 b6 show ?thesis
    unfolding separate_def by simp
qed

lemma separate_set_update:
  assumes "separate R h0 mm0 (h, mm)" and "a1 \<in> refs mm"
  shows "separate R h0 mm0 (set_update a1 a2 h, mm)"
proof -
  from assms have "a1 \<notin> R" by (auto simp: separate_def)
  then have "\<forall>a \<in> R. sets (set_update a1 a2 h) a = sets h a"
    by (metis sets_set_update_other)
  with assms(1) show ?thesis
    by (simp add: separate_def dom_set_update next_set_update)
qed

lemma map_of_setdefault_Some: "\<exists>v. map_of (setdefault k d mm) k = Some v"
  by (induction mm) auto

lemma heap_merge_step_eq:
  "\<exists>a1 b1. map_of (setdefault m (next_addr h, Suc (next_addr h)) mm) m = Some (a1, b1) \<and>
     heap_merge_step (h, mm) (m, (a2, b2)) =
       (set_update b1 b2 (set_update a1 a2
          (h\<lparr>sets := (sets h)(next_addr h \<mapsto> {}, Suc (next_addr h) \<mapsto> {}),
             next_addr := Suc (Suc (next_addr h))\<rparr>)),
        setdefault m (next_addr h, Suc (next_addr h)) mm)"
proof -
  obtain v where v: "map_of (setdefault m (next_addr h, Suc (next_addr h)) mm) m = Some v"
    using map_of_setdefault_Some by fast
  obtain a1 b1 where "v = (a1, b1)" by (cases v)
  with v show ?thesis
    by (simp add: heap_merge_step.simps new_set_def)
qed

lemma separate_step:
  assumes inv: "separate R h0 mm0 (h, mm)"
  shows "separate R h0 mm0 (heap_merge_step (h, mm) (m, (a2, b2)))"
proof -
  let ?h2 = "h\<lparr>sets := (sets h)(next_addr h \<mapsto> {}, Suc (next_addr h) \<mapsto> {}),
    next_addr := Suc (Suc (next_addr h))\<rparr>"
  let ?mm = "setdefault m (next_addr h, Suc (next_addr h)) mm"
  obtain a1 b1 where look: "map_of ?mm m = Some (a1, b1)"
    and step: "heap_merge_step (h, mm) (m, (a2, b2)) =
      (set_update b1 b2 (set_update a1 a2 ?h2), ?mm)"
    using heap_merge_step_eq [of m h mm a2 b2] by blast
  from look have "a1 \<in> refs ?mm" "b1 \<in> refs ?mm" by (auto dest: map_of_refs)
  with separate_alloc [OF inv, of m]
  have "separate R h0 mm0 (set_update b1 b2 (set_update a1 a2 ?h2), ?mm)"
    by (intro separate_set_update)
  with step show ?thesis by simp
qed

lemma separate_foldl:
  "separate R h0 mm0 s \<Longrightarrow> separate R h0 mm0 (foldl heap_merge_step s items)"
proof (induction items arbitrary: s)
  case Nil
  then show ?case by simp
next
  case (Cons e items)
  obtain h mm where s: "s = (h, mm)" by (cases s)
  obtain m a2 b2 where e: "e = (m, (a2, b2))" by (cases e) auto
  from Cons.prems Cons.IH [of "heap_merge_step s e"] show ?case
    by (simp add: s e separate_step)
qed

lemma set_ref_list: "set (ref_list mm) = refs mm"
  by (auto simp: ref_list_def refs_def)

lemma ref_list_Cons: "ref_list ((m, (a, b)) # mm) = a # b # ref_list mm"
  by (simp add: ref_list_def)

lemma abs_map_Cons: "abs_map h ((m, (a, b)) # mm) = (m, (deref h a, deref h b)) # abs_map h mm"
  by (simp add: abs_map_def)

lemma abs_map_cong:
  "(\<And>a. a \<in> refs mm \<Longrightarrow> deref h' a = deref h a) \<Longrightarrow> abs_map h' mm = abs_map h mm"
  by (auto simp: abs_map_def refs_def)

lemma ref_list_setdefault:
  "ref_list (setdefault k (p, f) mm) = ref_list mm \<or>
   ref_list (setdefault k (p, f) mm) = ref_list mm @ [p, f]"
proof (induction mm)
  case Nil
  show ?case by (simp add: ref_list_def)
next
  case (Cons e mm)
  obtain m a b where e: "e = (m, (a, b))" by (cases e) auto
  from Cons.IH show ?case by (auto simp: e ref_list_Cons)
qed

lemma abs_map_setdefault:
  "deref h p = {} \<Longrightarrow> deref h f = {} \<Longrightarrow>
     abs_map h (setdefault k (p, f) mm) = setdefault k ({}, {}) (abs_map h mm)"
proof (induction mm)
  case Nil
  then show ?case by (simp add: abs_map_def)
next
  case (Cons e mm)
  obtain m a b where e: "e = (m, (a, b))" by (cases e) auto
  from Cons show ?case by (simp add: e abs_map_Cons)
qed

lemma deref_set_update:
  "a1 \<in> dom (sets h) \<Longrightarrow> a2 \<in> dom (sets h) \<Longrightarrow>
     deref (set_update a1 a2 h) x = (if x = a1 then deref h a1 \<union> deref h a2 else deref h x)"
  by (auto simp: deref_def set_update_def split: option.splits)

lemma abs_map_update:
  assumes "distinct (ref_list mm)" and "map_of mm k = Some (a1, b1)"
    and "a2 \<notin> refs mm" and "b2 \<notin> refs mm"
    and "refs mm \<subseteq> dom (sets h)" and "a2 \<in> dom (sets h)" and "b2 \<in> dom (sets h)"
  shows "abs_map (set_update b1 b2 (set_update a1 a2 h)) mm =
         update_sets k (deref h a2) (deref h b2) (abs_map h mm)"
proof -
  let ?h = "set_update b1 b2 (set_update a1 a2 h)"
  from assms(2) have in_refs: "a1 \<in> refs mm" "b1 \<in> refs mm"
    by (auto dest: map_of_refs)
  with assms have doms: "a1 \<in> dom (sets h)" "b1 \<in> dom (sets h)" by auto
  from assms(1,2) have ne: "a1 \<noteq> b1"
  proof (induction mm)
    case Nil
    then show ?case by simp
  next
    case (Cons e mm)
    obtain m a b where e: "e = (m, (a, b))" by (cases e) auto
    from Cons show ?case by (auto simp: e ref_list_Cons split: if_splits)
  qed
  have d: "deref ?h x =
      (if x = b1 then deref h b1 \<union> deref h b2
       else if x = a1 then deref h a1 \<union> deref h a2 else deref h x)" for x
    using doms assms(3,4,6,7) in_refs ne
    by (auto simp: deref_set_update dom_set_update)
  from assms(1,2,3,4) show ?thesis
  proof (induction mm)
    case Nil
    then show ?case by simp
  next
    case (Cons e mm)
    obtain m a b where e: "e = (m, (a, b))" by (cases e) auto
    show ?case
    proof (cases "m = k")
      case True
      with Cons.prems have ab: "a = a1" "b = b1" by (simp_all add: e)
      from Cons.prems(1) have "a1 \<notin> refs mm" "b1 \<notin> refs mm"
        by (simp_all add: e ab ref_list_Cons set_ref_list [symmetric])
      then have "abs_map ?h mm = abs_map h mm"
        by (intro abs_map_cong) (auto simp: d)
      with True ne show ?thesis
        by (simp add: e ab abs_map_Cons d)
    next
      case False
      with Cons.prems have m: "map_of mm k = Some (a1, b1)" by (simp add: e)
      then have "a1 \<in> refs mm" "b1 \<in> refs mm" by (auto dest: map_of_refs)
      with Cons.prems(1) have "a \<noteq> a1" "a \<noteq> b1" "b \<noteq> a1" "b \<noteq> b1"
        by (auto simp: e ref_list_Cons set_ref_list [symmetric])
      moreover from Cons.prems have "distinct (ref_list mm)" "a2 \<notin> refs mm" "b2 \<notin> refs mm"
        by (simp_all add: e ref_list_Cons refs_Cons)
      ultimately show ?thesis
        using Cons.IH m False by (simp add: e abs_map_Cons d)
    qed
  qed
qed


lemma refine_step:
  assumes inv: "separate R h0 mm0 (h, mm)" and dist: "distinct (ref_list mm)"
    and R: "a2 \<in> R" "b2 \<in> R"
  shows "case heap_merge_step (h, mm) (m, (a2, b2)) of (h', mm') \<Rightarrow>
           abs_map h' mm' = merge_step (abs_map h mm) (m, (deref h0 a2, deref h0 b2)) \<and>
           distinct (ref_list mm')"
proof -
  let ?p = "next_addr h" and ?f = "Suc (next_addr h)"
  let ?h2 = "h\<lparr>sets := (sets h)(?p \<mapsto> {}, ?f \<mapsto> {}), next_addr := Suc (Suc (next_addr h))\<rparr>"
  let ?mm = "setdefault m (?p, ?f) mm"
  obtain a1 b1 where look: "map_of ?mm m = Some (a1, b1)"
    and step: "heap_merge_step (h, mm) (m, (a2, b2)) =
      (set_update b1 b2 (set_update a1 a2 ?h2), ?mm)"
    using heap_merge_step_eq [of m h mm a2 b2] by blast
  from inv have "refs mm \<subseteq> dom (sets h)" "dom (sets h) \<subseteq> {..<next_addr h}"
    by (simp_all add: separate_def)
  then have below: "refs mm \<subseteq> {..<next_addr h}"
    by blast
  then have fresh: "?p \<notin> refs mm" "?f \<notin> refs mm" by auto
  have dist': "distinct (ref_list ?mm)"
    using ref_list_setdefault [of m ?p ?f mm] dist fresh
    by (auto simp: set_ref_list)
  have inv2: "separate R h0 mm0 (?h2, ?mm)"
    by (rule separate_alloc [OF inv])
  then have out: "a2 \<notin> refs ?mm" "b2 \<notin> refs ?mm"
    and alloc: "refs ?mm \<subseteq> dom (sets ?h2)" "a2 \<in> dom (sets ?h2)" "b2 \<in> dom (sets ?h2)"
    and same: "sets ?h2 a2 = sets h0 a2" "sets ?h2 b2 = sets h0 b2"
    using R by (auto simp: separate_def)
  have d: "deref ?h2 a2 = deref h0 a2" "deref ?h2 b2 = deref h0 b2"
    using same by (simp_all add: deref_def)
  have "abs_map ?h2 mm = abs_map h mm"
    using fresh by (intro abs_map_cong) (auto simp: deref_def)
  then have "abs_map ?h2 ?mm = setdefault m ({}, {}) (abs_map h mm)"
    by (simp add: abs_map_setdefault deref_def)
  with abs_map_update [OF dist' look out alloc]
  have "abs_map (set_update b1 b2 (set_update a1 a2 ?h2)) ?mm =
      merge_step (abs_map h mm) (m, (deref h0 a2, deref h0 b2))"
    by (simp add: merge_step.simps d)
  with step dist' show ?thesis by simp
qed

lemma refine_foldl:
  "separate R h0 mm0 (h, mm) \<Longrightarrow> distinct (ref_list mm) \<Longrightarrow> refs items \<subseteq> R \<Longrightarrow>
     (case foldl heap_merge_step (h, mm) items of (h', mm') \<Rightarrow>
        abs_map h' mm' = foldl merge_step (abs_map h mm) (abs_map h0 items) \<and>
        distinct (ref_list mm'))"
proof (induction items arbitrary: h mm)
  case Nil
  then show ?case by (simp add: abs_map_def)
next
  case (Cons e items)
  obtain m a2 b2 where e: "e = (m, (a2, b2))" by (cases e) auto
  obtain h1 mm1 where s1: "heap_merge_step (h, mm) e = (h1, mm1)"
    by (cases "heap_merge_step (h, mm) e")
  from Cons.prems(3) have R: "a2 \<in> R" "b2 \<in> R" "refs items \<subseteq> R"
    by (auto simp: e refs_Cons)
  from refine_step [OF Cons.prems(1,2) R(1,2), of m] s1
  have abs1: "abs_map h1 mm1 = merge_step (abs_map h mm) (m, (deref h0 a2, deref h0 b2))"
    and dist1: "distinct (ref_list mm1)"
    by (simp_all add: e)
  from separate_step [OF Cons.prems(1), of m a2 b2] s1
  have inv1: "separate R h0 mm0 (h1, mm1)" by (simp add: e)
  from Cons.IH [OF inv1 dist1 R(3)] show ?case
    by (simp add: s1 abs1) (simp add: e abs_map_Cons)
qed

text \<open>
  Claim C10.  Let every set object of the two maps be allocated, and let no set object of
  the first map be a set object of the second.  Then \<^verbatim>\<open>merge_pk_maps\<close> leaves every set
  object of the second map, and so the value of the second map, as it was; the sets of
  the returned first map are sets the first map had before or sets allocated by the call,
  none of them a set of the second map, so that a later update of any of them leaves the
  sets of the second map as they were; and when the set objects of the first map are
  pairwise different, the value of the returned map is the merge of the two values: the
  elements of the second map's sets are copied in.
\<close>

theorem heap_merge_frame:
  assumes "dom (sets h) \<subseteq> {..<next_addr h}"
    and "refs mm1 \<subseteq> dom (sets h)" and "refs mm2 \<subseteq> dom (sets h)"
    and "refs mm1 \<inter> refs mm2 = {}"
  shows "case heap_merge_pk_maps h mm1 mm2 of (h', mm1') \<Rightarrow>
           (\<forall>a \<in> refs mm2. sets h' a = sets h a) \<and>
           abs_map h' mm2 = abs_map h mm2 \<and>
           refs mm1' \<inter> refs mm2 = {} \<and>
           refs mm1' \<subseteq> refs mm1 \<union> {next_addr h..<next_addr h'} \<and>
           (\<forall>a \<in> refs mm1'. \<forall>s. \<forall>b \<in> refs mm2.
              sets (h'\<lparr>sets := (sets h')(a \<mapsto> s)\<rparr>) b = sets h b) \<and>
           (distinct (ref_list mm1) \<longrightarrow>
              abs_map h' mm1' = merge_pk_maps (abs_map h mm1) (abs_map h mm2))"
proof -
  obtain h' mm1' where res: "heap_merge_pk_maps h mm1 mm2 = (h', mm1')"
    by (cases "heap_merge_pk_maps h mm1 mm2")
  from assms have start: "separate (refs mm2) h mm1 (h, mm1)"
    by (auto simp: separate_def)
  then have "separate (refs mm2) h mm1 (heap_merge_pk_maps h mm1 mm2)"
    unfolding heap_merge_pk_maps_def by (rule separate_foldl)
  then have sep: "separate (refs mm2) h mm1 (h', mm1')"
    by (simp add: res)
  then have same: "\<forall>a \<in> refs mm2. sets h' a = sets h a"
    and disj: "refs mm1' \<inter> refs mm2 = {}"
    and sub: "refs mm1' \<subseteq> refs mm1 \<union> {next_addr h..<next_addr h'}"
    by (simp_all add: separate_def)
  from same have unchanged: "abs_map h' mm2 = abs_map h mm2"
    by (intro abs_map_cong) (simp add: deref_def)
  from same disj have later: "\<forall>a \<in> refs mm1'. \<forall>s. \<forall>b \<in> refs mm2.
      sets (h'\<lparr>sets := (sets h')(a \<mapsto> s)\<rparr>) b = sets h b"
    by auto
  have "abs_map h' mm1' = merge_pk_maps (abs_map h mm1) (abs_map h mm2)"
    if "distinct (ref_list mm1)"
    using refine_foldl [OF start that, of mm2] res
    by (simp add: heap_merge_pk_maps_def merge_pk_maps_def)
  with same unchanged disj sub later show ?thesis
    by (simp add: res)
qed

text \<open>
  \<^verbatim>\<open>{Bar: [s2, s3]}\<close> merged with \<^verbatim>\<open>{Baz: [s4, s5]}\<close>: the new entry gets the fresh sets at
  addresses 6 and 7, and the sets at 4 and 5 are as before.
\<close>

theorem heap_merge_frame_witness:
  "snd (heap_merge_pk_maps
      \<lparr>sets = [2 \<mapsto> {1::int}, 3 \<mapsto> {10}, 4 \<mapsto> {2}, 5 \<mapsto> {20}], next_addr = 6\<rparr>
      [(''Bar'', (2, 3))] [(''Baz'', (4, 5))]) = [(''Bar'', (2, 3)), (''Baz'', (6, 7))] \<and>
   abs_map (fst (heap_merge_pk_maps
      \<lparr>sets = [2 \<mapsto> {1::int}, 3 \<mapsto> {10}, 4 \<mapsto> {2}, 5 \<mapsto> {20}], next_addr = 6\<rparr>
      [(''Bar'', (2, 3))] [(''Baz'', (4, 5))])) [(''Baz'', (4, 5))] =
     [(''Baz'', ({2}, {20}))] \<and>
   abs_map (fst (heap_merge_pk_maps
      \<lparr>sets = [2 \<mapsto> {1::int}, 3 \<mapsto> {10}, 4 \<mapsto> {2}, 5 \<mapsto> {20}], next_addr = 6\<rparr>
      [(''Bar'', (2, 3))] [(''Baz'', (4, 5))])) [(''Bar'', (2, 3)), (''Baz'', (6, 7))] =
     [(''Bar'', ({1}, {10})), (''Baz'', ({2}, {20}))]"
proof -
  let ?h = "\<lparr>sets = [2 \<mapsto> {1::int}, 3 \<mapsto> {10}, 4 \<mapsto> {2}, 5 \<mapsto> {20}], next_addr = 6\<rparr>"
  let ?mm1 = "[(''Bar'', (2::nat, 3::nat))]" and ?mm2 = "[(''Baz'', (4::nat, 5::nat))]"
  obtain h' mm1' where res: "heap_merge_pk_maps ?h ?mm1 ?mm2 = (h', mm1')"
    by (cases "heap_merge_pk_maps ?h ?mm1 ?mm2")
  have a1: "dom (sets ?h) \<subseteq> {..<next_addr ?h}" by auto
  have a2: "refs ?mm1 \<subseteq> dom (sets ?h)" by (simp add: refs_def)
  have a3: "refs ?mm2 \<subseteq> dom (sets ?h)" by (simp add: refs_def)
  have a4: "refs ?mm1 \<inter> refs ?mm2 = {}" by (simp add: refs_def)
  have a5: "distinct (ref_list ?mm1)" by (simp add: ref_list_def)
  from heap_merge_frame [OF a1 a2 a3 a4] res a5
  have snd_value: "abs_map h' ?mm2 = abs_map ?h ?mm2"
    and fst_value: "abs_map h' mm1' = merge_pk_maps (abs_map ?h ?mm1) (abs_map ?h ?mm2)"
    by simp_all
  have mm1': "mm1' = [(''Bar'', (2, 3)), (''Baz'', (6, 7))]"
    using res [symmetric]
    by (simp add: heap_merge_pk_maps_def heap_merge_step.simps new_set_def set_update_def)
  have "abs_map ?h ?mm2 = [(''Baz'', ({2}, {20}))]"
    by (simp add: abs_map_def deref_def)
  moreover have "merge_pk_maps (abs_map ?h ?mm1) (abs_map ?h ?mm2) =
      [(''Bar'', ({1}, {10})), (''Baz'', ({2}, {20}))]"
    by (simp add: abs_map_def deref_def merge_pk_maps_def merge_step.simps)
  ultimately show ?thesis
    using fst_value snd_value mm1' by (simp add: res)
qed

text \<open>
  \<^verbatim>\<open>{Bar: [s2, s3]}\<close> merged with \<^verbatim>\<open>{Baz: [s2, s3], Bar: [s4, s5]}\<close>, which shares the sets
  \<^verbatim>\<open>s2\<close> and \<^verbatim>\<open>s3\<close> with the first map: the merge of the entry for \<^verbatim>\<open>Bar\<close> writes to them, the
  value of the second map changes under \<^verbatim>\<open>Baz\<close>, and the returned map still shares them.
\<close>

theorem heap_merge_aliased:
  "abs_map \<lparr>sets = [2 \<mapsto> {1::int}, 3 \<mapsto> {10}, 4 \<mapsto> {9}, 5 \<mapsto> {90}], next_addr = 6\<rparr>
     [(''Baz'', (2, 3)), (''Bar'', (4, 5))] =
     [(''Baz'', ({1}, {10})), (''Bar'', ({9}, {90}))] \<and>
   abs_map (fst (heap_merge_pk_maps
      \<lparr>sets = [2 \<mapsto> {1::int}, 3 \<mapsto> {10}, 4 \<mapsto> {9}, 5 \<mapsto> {90}], next_addr = 6\<rparr>
      [(''Bar'', (2, 3))] [(''Baz'', (2, 3)), (''Bar'', (4, 5))]))
     [(''Baz'', (2, 3)), (''Bar'', (4, 5))] =
     [(''Baz'', ({1, 9}, {10, 90})), (''Bar'', ({9}, {90}))] \<and>
   refs (snd (heap_merge_pk_maps
      \<lparr>sets = [2 \<mapsto> {1::int}, 3 \<mapsto> {10}, 4 \<mapsto> {9}, 5 \<mapsto> {90}], next_addr = 6\<rparr>
      [(''Bar'', (2, 3))] [(''Baz'', (2, 3)), (''Bar'', (4, 5))])) \<inter>
     refs [(''Baz'', (2, 3)), (''Bar'', (4, 5))] = {2, 3}"
  by (auto simp add: heap_merge_pk_maps_def heap_merge_step.simps new_set_def set_update_def
      abs_map_def deref_def refs_def)

end
